theory Spec2Isabelle
  imports Main "HOL-Library.AList"
begin

section \<open>Data model (types/chat)\<close>

text \<open>
  Strings are lists of 8-bit characters; text outside ASCII is written in its UTF-8
  bytes.  Numbers are timestamps and byte counts, hence integers.
\<close>

datatype ChatRole = User | Assistant | System

datatype MessageStatus = Pending | Streaming | Sent | Error

datatype MessageType = Text | Card | File

datatype CardType = Contact | Article

datatype json =
    JNull
  | JBool bool
  | JNum int
  | JString string
  | JArray "json list"
  | JObject "(string \<times> json) list"

record FileAttachment =
  a_name :: string
  a_size :: int
  a_mime :: string
  a_url :: "string option"
  a_storageKey :: "string option"

record AssistantCard =
  c_cardType :: CardType
  c_title :: string
  c_description :: string
  c_actionText :: string
  c_actionUrl :: string

record ChatMessage =
  m_id :: string
  m_sessionId :: string
  m_role :: ChatRole
  m_type :: MessageType
  m_content :: string
  m_createdAt :: int
  m_status :: MessageStatus
  m_metadata :: "(string \<times> json) list option"
  m_attachment :: "FileAttachment option"
  m_card :: "AssistantCard option"

record ChatSession =
  s_id :: string
  s_title :: string
  s_createdAt :: int
  s_updatedAt :: int
  s_messageIds :: "string list"

section \<open>Strings: trim, decimal numerals\<close>

text \<open>
  \<open>String.prototype.trim\<close> strips white space and line terminators from both ends.
  \<open>ws_prefix\<close> gives the number of bytes of the white-space character a string starts
  with (0 when it starts with none): U+0009..U+000D, U+0020, U+00A0, U+1680,
  U+2000..U+200A, U+2028, U+2029, U+202F, U+205F, U+3000, U+FEFF.
\<close>

definition ascii_ws :: "char \<Rightarrow> bool" where
  "ascii_ws c = (c \<in> set [CHR 0x09, CHR 0x0A, CHR 0x0B, CHR 0x0C, CHR 0x0D, CHR 0x20])"

fun ws_prefix :: "string \<Rightarrow> nat" where
  "ws_prefix [] = 0"
| "ws_prefix [c] = (if ascii_ws c then 1 else 0)"
| "ws_prefix [c, d] =
     (if ascii_ws c then 1 else if c = CHR 0xC2 \<and> d = CHR 0xA0 then 2 else 0)"
| "ws_prefix (c # d # e # _) =
     (if ascii_ws c then 1
      else if c = CHR 0xC2 \<and> d = CHR 0xA0 then 2
      else if c = CHR 0xE1 \<and> d = CHR 0x9A \<and> e = CHR 0x80 then 3
      else if c = CHR 0xE2 \<and> d = CHR 0x80 \<and>
           e \<in> set [CHR 0x80, CHR 0x81, CHR 0x82, CHR 0x83, CHR 0x84, CHR 0x85, CHR 0x86,
                    CHR 0x87, CHR 0x88, CHR 0x89, CHR 0x8A, CHR 0xA8, CHR 0xA9, CHR 0xAF]
        then 3
      else if c = CHR 0xE2 \<and> d = CHR 0x81 \<and> e = CHR 0x9F then 3
      else if c = CHR 0xE3 \<and> d = CHR 0x80 \<and> e = CHR 0x80 then 3
      else if c = CHR 0xEF \<and> d = CHR 0xBB \<and> e = CHR 0xBF then 3
      else 0)"

text \<open>The same test at the end of a string, given the string reversed.\<close>

definition ws_suffix_rev :: "string \<Rightarrow> nat" where
  "ws_suffix_rev r =
     (case r of
        [] \<Rightarrow> 0
      | c # _ \<Rightarrow>
          if ascii_ws c then 1
          else if ws_prefix (rev (take 2 r)) = 2 \<and> length r \<ge> 2 then 2
          else if ws_prefix (rev (take 3 r)) = 3 \<and> length r \<ge> 3 then 3
          else 0)"

fun trim_start_fuel :: "nat \<Rightarrow> string \<Rightarrow> string" where
  "trim_start_fuel 0 s = s"
| "trim_start_fuel (Suc n) s =
     (if ws_prefix s = 0 then s else trim_start_fuel n (drop (ws_prefix s) s))"

fun trim_end_fuel :: "nat \<Rightarrow> string \<Rightarrow> string" where
  "trim_end_fuel 0 r = r"
| "trim_end_fuel (Suc n) r =
     (if ws_suffix_rev r = 0 then r else trim_end_fuel n (drop (ws_suffix_rev r) r))"

text \<open>Each round removes at least one byte, so the length of the string is fuel enough.\<close>

definition trim :: "string \<Rightarrow> string" where
  "trim s = (let t = trim_start_fuel (length s) s
             in rev (trim_end_fuel (length t) (rev t)))"

definition is_digit :: "char \<Rightarrow> bool" where
  "is_digit c = (48 \<le> (of_char c :: nat) \<and> (of_char c :: nat) \<le> 57)"

definition digit_char :: "nat \<Rightarrow> char" where
  "digit_char d = char_of (d + 48)"

definition digit_val :: "char \<Rightarrow> nat" where
  "digit_val c = of_char c - 48"

text \<open>Decimal numeral of a natural number, as a template literal prints it.\<close>

fun show_nat :: "nat \<Rightarrow> string" where
  "show_nat n = (if n < 10 then [digit_char n] else show_nat (n div 10) @ [digit_char (n mod 10)])"

declare show_nat.simps [simp del]

text \<open>\<open>parseInt(ds, 10)\<close> on a string of decimal digits.\<close>

definition parse_nat :: "string \<Rightarrow> nat" where
  "parse_nat ds = foldl (\<lambda>acc c. 10 * acc + digit_val c) 0 ds"

section \<open>Store chatSessions\<close>

text \<open>
  The pattern \<open>/^<prefix>(\d+)$/\<close> of \<open>createSession\<close>: the prefix is the four
  characters U+65B0 U+7684 U+5BF9 U+8BDD and a space.
\<close>

definition title_prefix :: string where
  "title_prefix =
     [CHR 0xE6, CHR 0x96, CHR 0xB0, CHR 0xE7, CHR 0x9A, CHR 0x84,
      CHR 0xE5, CHR 0xAF, CHR 0xB9, CHR 0xE8, CHR 0xAF, CHR 0x9D, CHR 0x20]"

text \<open>\<open>title.match(...)\<close>: the captured digits, or None when the title does not match.\<close>

definition title_match :: "string \<Rightarrow> string option" where
  "title_match t =
     (let ds = drop (length title_prefix) t
      in if take (length title_prefix) t = title_prefix \<and> ds \<noteq> [] \<and> list_all is_digit ds
         then Some ds else None)"

definition title_number :: "string \<Rightarrow> nat" where
  "title_number t = (case title_match t of Some ds \<Rightarrow> parse_nat ds | None \<Rightarrow> 0)"

definition existingNumbers :: "ChatSession list \<Rightarrow> nat list" where
  "existingNumbers ss = sort (filter (\<lambda>n. n > 0) (map (\<lambda>s. title_number (s_title s)) ss))"

text \<open>The loop over the sorted numbers; \<open>break\<close> returns the current candidate.\<close>

fun nextNumber_loop :: "nat \<Rightarrow> nat list \<Rightarrow> nat" where
  "nextNumber_loop nextNumber [] = nextNumber"
| "nextNumber_loop nextNumber (num # rest) =
     (if num = nextNumber then nextNumber_loop (nextNumber + 1) rest
      else if num > nextNumber then nextNumber
      else nextNumber_loop nextNumber rest)"

definition nextNumber :: "ChatSession list \<Rightarrow> nat" where
  "nextNumber ss = nextNumber_loop 1 (existingNumbers ss)"

record sessions_state =
  sessions :: "ChatSession list"
  activeSessionId :: "string option"

text \<open>
  \<open>nanoid\<close> and \<open>Date.now\<close> are inputs: every operation takes the identifiers and the
  time the environment hands to it, one time for each uninterrupted run of code.
\<close>

definition new_title :: "string option \<Rightarrow> ChatSession list \<Rightarrow> string" where
  "new_title title ss =
     (case title of
        None \<Rightarrow> title_prefix @ show_nat (nextNumber ss)
      | Some t \<Rightarrow> if trim t \<noteq> [] then trim t else title_prefix @ show_nat (nextNumber ss))"

definition createSession ::
  "string option \<Rightarrow> string \<Rightarrow> int \<Rightarrow> ('a sessions_state_scheme) \<Rightarrow> ChatSession \<times> 'a sessions_state_scheme" where
  "createSession title new_id now st =
     (let newSession = \<lparr> s_id = new_id, s_title = new_title title (sessions st),
                         s_createdAt = now, s_updatedAt = now, s_messageIds = [] \<rparr>
      in (newSession, st\<lparr> sessions := newSession # sessions st, activeSessionId := Some new_id \<rparr>))"

definition setActiveSession :: "string \<Rightarrow> 'a sessions_state_scheme \<Rightarrow> 'a sessions_state_scheme" where
  "setActiveSession i st = st\<lparr> activeSessionId := Some i \<rparr>"

text \<open>\<open>xs.find(P)\<close> followed by a mutation of the element found: the first match changes.\<close>

fun update_first :: "('a \<Rightarrow> bool) \<Rightarrow> ('a \<Rightarrow> 'a) \<Rightarrow> 'a list \<Rightarrow> 'a list" where
  "update_first P f [] = []"
| "update_first P f (x # xs) = (if P x then f x # xs else x # update_first P f xs)"

definition renameSession :: "string \<Rightarrow> string \<Rightarrow> int \<Rightarrow> 'a sessions_state_scheme \<Rightarrow> 'a sessions_state_scheme" where
  "renameSession i title now st =
     st\<lparr> sessions := update_first (\<lambda>s. s_id s = i)
            (\<lambda>s. s\<lparr> s_title := title, s_updatedAt := now \<rparr>) (sessions st) \<rparr>"

definition deleteSession_sessions :: "string \<Rightarrow> 'a sessions_state_scheme \<Rightarrow> 'a sessions_state_scheme" where
  "deleteSession_sessions i st =
     (let ss = filter (\<lambda>s. s_id s \<noteq> i) (sessions st)
      in st\<lparr> sessions := ss,
             activeSessionId :=
               (if activeSessionId st = Some i
                then (case ss of [] \<Rightarrow> None | s # _ \<Rightarrow> Some (s_id s))
                else activeSessionId st) \<rparr>)"

definition touchSession :: "string \<Rightarrow> int \<Rightarrow> 'a sessions_state_scheme \<Rightarrow> 'a sessions_state_scheme" where
  "touchSession i now st =
     st\<lparr> sessions := update_first (\<lambda>s. s_id s = i) (\<lambda>s. s\<lparr> s_updatedAt := now \<rparr>) (sessions st) \<rparr>"

definition appendMessageId :: "string \<Rightarrow> string \<Rightarrow> int \<Rightarrow> 'a sessions_state_scheme \<Rightarrow> 'a sessions_state_scheme" where
  "appendMessageId sessionId messageId now st =
     st\<lparr> sessions := update_first (\<lambda>s. s_id s = sessionId)
            (\<lambda>s. if messageId \<in> set (s_messageIds s) then s
                 else s\<lparr> s_messageIds := s_messageIds s @ [messageId], s_updatedAt := now \<rparr>)
            (sessions st) \<rparr>"

definition replaceMessageIds :: "string \<Rightarrow> string list \<Rightarrow> int \<Rightarrow> 'a sessions_state_scheme \<Rightarrow> 'a sessions_state_scheme" where
  "replaceMessageIds sessionId messageIds now st =
     st\<lparr> sessions := update_first (\<lambda>s. s_id s = sessionId)
            (\<lambda>s. s\<lparr> s_messageIds := messageIds, s_updatedAt := now \<rparr>) (sessions st) \<rparr>"

text \<open>The message ids of a session, as \<open>sessions.find(...)?.messageIds\<close> reads them.\<close>

definition messageIds_of :: "string \<Rightarrow> 'a sessions_state_scheme \<Rightarrow> string list option" where
  "messageIds_of sessionId st = map_option s_messageIds (find (\<lambda>s. s_id s = sessionId) (sessions st))"


section \<open>JSON text: JSON.stringify and JSON.parse\<close>

text \<open>
  The platform functions, on the values the program stores.  An object is the list of
  its properties in enumeration order; numbers are integers, printed in decimal.
  \<open>escape_char\<close> is the escaping of \<open>JSON.stringify\<close>: the quote, the backslash and
  the control characters below U+0020.
\<close>

definition hex_char :: "nat \<Rightarrow> char" where
  "hex_char d = (if d < 10 then char_of (d + 48) else char_of (d + 87))"

definition escape_char :: "char \<Rightarrow> string" where
  "escape_char c =
     (if c = CHR 0x22 then [CHR 0x5C, CHR 0x22]
      else if c = CHR 0x5C then [CHR 0x5C, CHR 0x5C]
      else if c = CHR 0x08 then [CHR 0x5C, CHR ''b'']
      else if c = CHR 0x0C then [CHR 0x5C, CHR ''f'']
      else if c = CHR 0x0A then [CHR 0x5C, CHR ''n'']
      else if c = CHR 0x0D then [CHR 0x5C, CHR ''r'']
      else if c = CHR 0x09 then [CHR 0x5C, CHR ''t'']
      else if (of_char c :: nat) < 32
        then [CHR 0x5C, CHR ''u'', CHR ''0'', CHR ''0'',
              hex_char ((of_char c :: nat) div 16), hex_char ((of_char c :: nat) mod 16)]
      else [c])"

text \<open>The characters of a string literal after its opening quote.\<close>

fun quote_body :: "string \<Rightarrow> string" where
  "quote_body [] = [CHR 0x22]"
| "quote_body (c # cs) = escape_char c @ quote_body cs"

definition quote :: "string \<Rightarrow> string" where
  "quote s = CHR 0x22 # quote_body s"

definition show_int :: "int \<Rightarrow> string" where
  "show_int i = (if i < 0 then CHR ''-'' # show_nat (nat (- i)) else show_nat (nat i))"

fun stringify :: "json \<Rightarrow> string"
  and stringify_elements :: "json list \<Rightarrow> string"
  and stringify_members :: "(string \<times> json) list \<Rightarrow> string" where
  "stringify JNull = ''null''"
| "stringify (JBool b) = (if b then ''true'' else ''false'')"
| "stringify (JNum i) = show_int i"
| "stringify (JString s) = quote s"
| "stringify (JArray vs) = CHR ''['' # stringify_elements vs"
| "stringify (JObject kvs) = CHR ''{'' # stringify_members kvs"
| "stringify_elements [] = '']''"
| "stringify_elements (v # vs) =
     stringify v @ (if vs = [] then '']'' else CHR '','' # stringify_elements vs)"
| "stringify_members [] = ''}''"
| "stringify_members ((k, v) # kvs) =
     quote k @ CHR '':'' # stringify v @ (if kvs = [] then ''}'' else CHR '','' # stringify_members kvs)"

text \<open>
  \<open>JSON.parse\<close>.  White space is allowed between tokens.  A number with a fraction
  or an exponent is not an integer and is rejected here, as is a leading zero.
\<close>

definition json_ws :: "char \<Rightarrow> bool" where
  "json_ws c = (c \<in> set [CHR 0x20, CHR 0x09, CHR 0x0A, CHR 0x0D])"

definition skip_ws :: "string \<Rightarrow> string" where
  "skip_ws s = dropWhile json_ws s"

definition is_hex :: "char \<Rightarrow> bool" where
  "is_hex c =
     (is_digit c \<or> (97 \<le> (of_char c :: nat) \<and> (of_char c :: nat) \<le> 102)
      \<or> (65 \<le> (of_char c :: nat) \<and> (of_char c :: nat) \<le> 70))"

definition hex_val :: "char \<Rightarrow> nat" where
  "hex_val c =
     (if is_digit c then of_char c - 48
      else if (of_char c :: nat) \<ge> 97 then of_char c - 87
      else of_char c - 55)"

text \<open>The UTF-8 bytes of a \<open>\uXXXX\<close> escape.\<close>

definition utf8 :: "nat \<Rightarrow> string" where
  "utf8 n =
     (if n < 0x80 then [char_of n]
      else if n < 0x800 then [char_of (0xC0 + n div 64), char_of (0x80 + n mod 64)]
      else [char_of (0xE0 + n div 4096), char_of (0x80 + (n div 64) mod 64),
            char_of (0x80 + n mod 64)])"

definition unescape :: "char \<Rightarrow> char option" where
  "unescape e =
     (if e = CHR 0x22 then Some (CHR 0x22)
      else if e = CHR 0x5C then Some (CHR 0x5C)
      else if e = CHR ''/'' then Some (CHR ''/'')
      else if e = CHR ''b'' then Some (CHR 0x08)
      else if e = CHR ''f'' then Some (CHR 0x0C)
      else if e = CHR ''n'' then Some (CHR 0x0A)
      else if e = CHR ''r'' then Some (CHR 0x0D)
      else if e = CHR ''t'' then Some (CHR 0x09)
      else None)"

text \<open>A string literal after its opening quote: the string, and the text after the closing quote.\<close>

fun parse_string_body :: "string \<Rightarrow> (string \<times> string) option" where
  "parse_string_body [] = None"
| "parse_string_body (c # cs) =
     (if c = CHR 0x22 then Some ([], cs)
      else if c = CHR 0x5C then
        (case cs of
           [] \<Rightarrow> None
         | e # es \<Rightarrow>
             if e = CHR ''u'' then
               (case es of
                  h1 # h2 # h3 # h4 # r \<Rightarrow>
                    if is_hex h1 \<and> is_hex h2 \<and> is_hex h3 \<and> is_hex h4 then
                      map_option
                        (\<lambda>p. (utf8 (4096 * hex_val h1 + 256 * hex_val h2 + 16 * hex_val h3 + hex_val h4)
                                @ fst p, snd p))
                        (parse_string_body r)
                    else None
                | _ \<Rightarrow> None)
             else
               (case unescape e of
                  None \<Rightarrow> None
                | Some d \<Rightarrow> map_option (\<lambda>p. (d # fst p, snd p)) (parse_string_body es)))
      else if (of_char c :: nat) < 32 then None
      else map_option (\<lambda>p. (c # fst p, snd p)) (parse_string_body cs))"

definition parse_number :: "string \<Rightarrow> (int \<times> string) option" where
  "parse_number s =
     (let neg = (s \<noteq> [] \<and> hd s = CHR ''-'');
          s1 = (if neg then tl s else s);
          ds = takeWhile is_digit s1;
          rest = dropWhile is_digit s1
      in if ds = [] then None
         else if length ds > 1 \<and> hd ds = CHR ''0'' then None
         else if rest \<noteq> [] \<and> hd rest \<in> set ''.eE'' then None
         else Some (if neg then - int (parse_nat ds) else int (parse_nat ds), rest))"

text \<open>
  A property named twice keeps the place of its first occurrence and the value of its
  last one.
\<close>

definition make_object :: "(string \<times> json) list \<Rightarrow> (string \<times> json) list" where
  "make_object kvs = foldl (\<lambda>acc kv. AList.update (fst kv) (snd kv) acc) [] kvs"

text \<open>
  The recursive descent, with fuel: each call takes one unit, and nesting costs at
  most two calls for each character read.
\<close>

fun parse_value :: "nat \<Rightarrow> string \<Rightarrow> (json \<times> string) option"
  and parse_elements :: "nat \<Rightarrow> string \<Rightarrow> (json list \<times> string) option"
  and parse_members :: "nat \<Rightarrow> string \<Rightarrow> ((string \<times> json) list \<times> string) option" where
  "parse_value 0 s = None"
| "parse_value (Suc n) s =
     (case skip_ws s of
        [] \<Rightarrow> None
      | c # r \<Rightarrow>
          if c = CHR ''n'' then (if take 3 r = ''ull'' then Some (JNull, drop 3 r) else None)
          else if c = CHR ''t'' then (if take 3 r = ''rue'' then Some (JBool True, drop 3 r) else None)
          else if c = CHR ''f'' then (if take 4 r = ''alse'' then Some (JBool False, drop 4 r) else None)
          else if c = CHR 0x22 then map_option (\<lambda>p. (JString (fst p), snd p)) (parse_string_body r)
          else if c = CHR ''['' then
            (case skip_ws r of
               [] \<Rightarrow> None
             | d # r' \<Rightarrow>
                 if d = CHR '']'' then Some (JArray [], r')
                 else map_option (\<lambda>p. (JArray (fst p), snd p)) (parse_elements n r))
          else if c = CHR ''{'' then
            (case skip_ws r of
               [] \<Rightarrow> None
             | d # r' \<Rightarrow>
                 if d = CHR ''}'' then Some (JObject [], r')
                 else map_option (\<lambda>p. (JObject (make_object (fst p)), snd p)) (parse_members n r))
          else map_option (\<lambda>p. (JNum (fst p), snd p)) (parse_number (c # r)))"
| "parse_elements 0 s = None"
| "parse_elements (Suc n) s =
     (case parse_value n s of
        None \<Rightarrow> None
      | Some (v, r) \<Rightarrow>
          (case skip_ws r of
             [] \<Rightarrow> None
           | c # r' \<Rightarrow>
               if c = CHR '','' then map_option (\<lambda>p. (v # fst p, snd p)) (parse_elements n r')
               else if c = CHR '']'' then Some ([v], r')
               else None))"
| "parse_members 0 s = None"
| "parse_members (Suc n) s =
     (case skip_ws s of
        [] \<Rightarrow> None
      | q # r \<Rightarrow>
          if q \<noteq> CHR 0x22 then None
          else
            (case parse_string_body r of
               None \<Rightarrow> None
             | Some (k, r1) \<Rightarrow>
                 (case skip_ws r1 of
                    [] \<Rightarrow> None
                  | c # r2 \<Rightarrow>
                      if c \<noteq> CHR '':'' then None
                      else
                        (case parse_value n r2 of
                           None \<Rightarrow> None
                         | Some (v, r3) \<Rightarrow>
                             (case skip_ws r3 of
                                [] \<Rightarrow> None
                              | d # r4 \<Rightarrow>
                                  if d = CHR '','' then
                                    map_option (\<lambda>p. ((k, v) # fst p, snd p)) (parse_members n r4)
                                  else if d = CHR ''}'' then Some ([(k, v)], r4)
                                  else None)))))"

definition JSON_parse :: "string \<Rightarrow> json option" where
  "JSON_parse s =
     (case parse_value (2 * length s + 2) s of
        None \<Rightarrow> None
      | Some (v, r) \<Rightarrow> if skip_ws r = [] then Some v else None)"

definition JSON_stringify :: "json \<Rightarrow> string" where
  "JSON_stringify v = stringify v"

text \<open>
  A value of this type stands for a JavaScript object graph when no object lists a
  property twice.
\<close>

fun wf_json :: "json \<Rightarrow> bool" where
  "wf_json (JArray vs) = (\<forall>v \<in> set vs. wf_json v)"
| "wf_json (JObject kvs) = (distinct (map fst kvs) \<and> (\<forall>kv \<in> set kvs. wf_json (snd kv)))"
| "wf_json _ = True"

section \<open>utils/storage\<close>

text \<open>
  \<open>item\<close> is what \<open>localStorage\<close> holds under the key \<open>llmchat:v1\<close>; \<open>has_window\<close>
  is \<open>typeof window !== 'undefined'\<close>.  A JavaScript value read from a parsed text is a
  JSON value or \<open>undefined\<close>.
\<close>

datatype jsvalue = Undefined | Defined json

datatype js_error = TypeError | SyntaxError

text \<open>\<open>parsed.data\<close>: reading a property of \<open>null\<close> throws, a missing property is \<open>undefined\<close>.\<close>

definition get_data :: "json \<Rightarrow> js_error + jsvalue" where
  "get_data parsed =
     (case parsed of
        JNull \<Rightarrow> Inl TypeError
      | JObject kvs \<Rightarrow> (case map_of kvs ''data'' of None \<Rightarrow> Inr Undefined | Some d \<Rightarrow> Inr (Defined d))
      | _ \<Rightarrow> Inr Undefined)"

definition loadFromStorage :: "bool \<Rightarrow> json \<Rightarrow> string option \<Rightarrow> jsvalue" where
  "loadFromStorage has_window fallback item =
     (if \<not> has_window then Defined fallback
      else case item of
        None \<Rightarrow> Defined fallback
      | Some raw \<Rightarrow>
          if raw = [] then Defined fallback
          else (case JSON_parse raw of
                  None \<Rightarrow> Defined fallback
                | Some parsed \<Rightarrow>
                    (case get_data parsed of
                       Inl _ \<Rightarrow> Defined fallback
                     | Inr d \<Rightarrow> d)))"

definition saveToStorage :: "bool \<Rightarrow> json \<Rightarrow> string option \<Rightarrow> string option" where
  "saveToStorage has_window data item =
     (if \<not> has_window then item
      else Some (JSON_stringify (JObject [(''version'', JNum 1), (''data'', data)])))"

definition clearStorage :: "bool \<Rightarrow> string option \<Rightarrow> string option" where
  "clearStorage has_window item = (if \<not> has_window then item else None)"

section \<open>stores/chatPersistence\<close>

definition role_json :: "ChatRole \<Rightarrow> json" where
  "role_json r = JString (case r of User \<Rightarrow> ''user'' | Assistant \<Rightarrow> ''assistant'' | System \<Rightarrow> ''system'')"

definition status_json :: "MessageStatus \<Rightarrow> json" where
  "status_json s =
     JString (case s of Pending \<Rightarrow> ''pending'' | Streaming \<Rightarrow> ''streaming''
              | Sent \<Rightarrow> ''sent'' | Error \<Rightarrow> ''error'')"

definition type_json :: "MessageType \<Rightarrow> json" where
  "type_json t = JString (case t of Text \<Rightarrow> ''text'' | Card \<Rightarrow> ''card'' | File \<Rightarrow> ''file'')"

definition optional :: "string \<Rightarrow> ('a \<Rightarrow> json) \<Rightarrow> 'a option \<Rightarrow> (string \<times> json) list" where
  "optional k f x = (case x of None \<Rightarrow> [] | Some y \<Rightarrow> [(k, f y)])"

definition attachment_json :: "FileAttachment \<Rightarrow> json" where
  "attachment_json a =
     JObject ([(''name'', JString (a_name a)), (''size'', JNum (a_size a)),
               (''mime'', JString (a_mime a))]
              @ optional ''url'' JString (a_url a)
              @ optional ''storageKey'' JString (a_storageKey a))"

definition card_json :: "AssistantCard \<Rightarrow> json" where
  "card_json c =
     JObject [(''cardType'', JString (case c_cardType c of Contact \<Rightarrow> ''contact'' | Article \<Rightarrow> ''article'')),
              (''title'', JString (c_title c)), (''description'', JString (c_description c)),
              (''actionText'', JString (c_actionText c)), (''actionUrl'', JString (c_actionUrl c))]"

definition message_json :: "ChatMessage \<Rightarrow> json" where
  "message_json m =
     JObject ([(''id'', JString (m_id m)), (''sessionId'', JString (m_sessionId m)),
               (''role'', role_json (m_role m)), (''type'', type_json (m_type m)),
               (''content'', JString (m_content m)), (''createdAt'', JNum (m_createdAt m)),
               (''status'', status_json (m_status m))]
              @ optional ''metadata'' JObject (m_metadata m)
              @ optional ''attachment'' attachment_json (m_attachment m)
              @ optional ''card'' card_json (m_card m))"

definition session_json :: "ChatSession \<Rightarrow> json" where
  "session_json s =
     JObject [(''id'', JString (s_id s)), (''title'', JString (s_title s)),
              (''createdAt'', JNum (s_createdAt s)), (''updatedAt'', JNum (s_updatedAt s)),
              (''messageIds'', JArray (map JString (s_messageIds s)))]"

definition sessions_json :: "ChatSession list \<Rightarrow> json" where
  "sessions_json ss = JArray (map session_json ss)"

definition messages_json :: "(string \<times> ChatMessage list) list \<Rightarrow> json" where
  "messages_json ms = JObject (map (\<lambda>kv. (fst kv, JArray (map message_json (snd kv)))) ms)"

definition defaultState :: json where
  "defaultState = JObject [(''sessions'', JArray []), (''messages'', JObject [])]"

text \<open>\<open>clone\<close> is \<open>JSON.parse(JSON.stringify(value))\<close>; None when the parse throws.\<close>

definition clone :: "json \<Rightarrow> json option" where
  "clone v = JSON_parse (JSON_stringify v)"

definition readInitialChatState :: "bool \<Rightarrow> string option \<Rightarrow> jsvalue option" where
  "readInitialChatState has_window item =
     map_option (\<lambda>fallback. loadFromStorage has_window fallback item) (clone defaultState)"

definition persistChatState :: "bool \<Rightarrow> json \<Rightarrow> string option \<Rightarrow> string option" where
  "persistChatState has_window st item = saveToStorage has_window st item"

definition makePersistedState :: "ChatSession list \<Rightarrow> (string \<times> ChatMessage list) list \<Rightarrow> json option" where
  "makePersistedState ss ms =
     (case clone (sessions_json ss) of
        None \<Rightarrow> None
      | Some s \<Rightarrow>
          (case clone (messages_json ms) of
             None \<Rightarrow> None
           | Some m \<Rightarrow> Some (JObject [(''sessions'', s), (''messages'', m)])))"

section \<open>Store chat\<close>

text \<open>
  The state of the two stores, the \<open>AbortController\<close> objects created so far
  (\<open>controllers ! c\<close> is the \<open>aborted\<close> flag of controller \<open>c\<close>; a signal is the index
  of its controller) and the storage item.
\<close>

record state = sessions_state +
  messagesBySession :: "(string \<times> ChatMessage list) list"
  streamingMessageId :: "string option"
  isSending :: bool
  abortController :: "nat option"
  controllers :: "bool list"
  has_window :: bool
  localStorage :: "string option"

record File =
  f_name :: string
  f_size :: int
  f_type :: string

record ContextMessage =
  cm_role :: ChatRole
  cm_content :: string

record ChatCompletionPayload =
  p_model :: string
  p_messages :: "ContextMessage list"
  p_stream :: bool

record ChatCompletionChoice =
  ch_index :: int
  ch_role :: ChatRole
  ch_content :: string

text \<open>Of a completion response the store reads the choices only.\<close>

record ChatCompletionResponse =
  r_choices :: "ChatCompletionChoice list"

text \<open>
  \<open>persist\<close>.  The parse inside \<open>clone\<close> does not throw on a text that
  \<open>JSON.stringify\<close> printed (lemma \<open>clone_wf\<close> below); were it to, nothing would be
  written.
\<close>

definition persist :: "state \<Rightarrow> state" where
  "persist st =
     (case makePersistedState (sessions st) (messagesBySession st) of
        None \<Rightarrow> st
      | Some snapshot \<Rightarrow>
          st\<lparr> localStorage := persistChatState (has_window st) snapshot (localStorage st) \<rparr>)"

text \<open>\<open>truthy\<close>: \<open>if (id)\<close> on a \<open>string | null\<close>.\<close>

definition truthy :: "string option \<Rightarrow> bool" where
  "truthy x = (case x of None \<Rightarrow> False | Some s \<Rightarrow> s \<noteq> [])"

definition messages_of :: "string \<Rightarrow> state \<Rightarrow> ChatMessage list" where
  "messages_of sessionId st =
     (case map_of (messagesBySession st) sessionId of None \<Rightarrow> [] | Some l \<Rightarrow> l)"

definition set_messages :: "string \<Rightarrow> ChatMessage list \<Rightarrow> state \<Rightarrow> state" where
  "set_messages sessionId l st =
     st\<lparr> messagesBySession := AList.update sessionId l (messagesBySession st) \<rparr>"

definition startNewSession :: "string option \<Rightarrow> string \<Rightarrow> int \<Rightarrow> state \<Rightarrow> string \<times> state" where
  "startNewSession title new_id now st =
     (let (newSession, st1) = createSession title new_id now st
      in (s_id newSession, persist (set_messages (s_id newSession) [] st1)))"

definition ensureSession :: "string \<Rightarrow> int \<Rightarrow> state \<Rightarrow> string \<times> state" where
  "ensureSession new_id now st =
     (if truthy (activeSessionId st) then (the (activeSessionId st), st)
      else startNewSession None new_id now st)"

definition getMessages :: "string \<Rightarrow> state \<Rightarrow> ChatMessage list \<times> state" where
  "getMessages sessionId st =
     (case map_of (messagesBySession st) sessionId of
        None \<Rightarrow> ([], set_messages sessionId [] st)
      | Some l \<Rightarrow> (l, st))"

definition appendMessage :: "string \<Rightarrow> ChatMessage \<Rightarrow> int \<Rightarrow> state \<Rightarrow> state" where
  "appendMessage sessionId message now st =
     (let (l, st1) = getMessages sessionId st
      in appendMessageId sessionId (m_id message) now (set_messages sessionId (l @ [message]) st1))"

definition updateMessage :: "string \<Rightarrow> string \<Rightarrow> (ChatMessage \<Rightarrow> ChatMessage) \<Rightarrow> state \<Rightarrow> state" where
  "updateMessage sessionId messageId updater st =
     (let (l, st1) = getMessages sessionId st
      in set_messages sessionId (update_first (\<lambda>m. m_id m = messageId) updater l) st1)"

definition setMessageStatus :: "string \<Rightarrow> string \<Rightarrow> MessageStatus \<Rightarrow> state \<Rightarrow> state" where
  "setMessageStatus sessionId messageId status st =
     updateMessage sessionId messageId (\<lambda>m. m\<lparr> m_status := status \<rparr>) st"

definition buildContextMessages :: "string \<Rightarrow> state \<Rightarrow> ContextMessage list \<times> state" where
  "buildContextMessages sessionId st =
     (let st1 = setActiveSession sessionId st;
          (allMessages, st2) = getMessages sessionId st1;
          textMessages = filter (\<lambda>m. m_type m = Text \<and> m_status m \<noteq> Streaming) allMessages;
          slice = drop (length textMessages - 8) textMessages
      in (map (\<lambda>m. \<lparr> cm_role = m_role m, cm_content = m_content m \<rparr>) slice, st2))"

subsection \<open>Cancellation and the chunk generator\<close>

text \<open>\<open>this.abortController?.abort()\<close> and \<open>this.abortController = new AbortController()\<close>.\<close>

definition abort_current :: "state \<Rightarrow> state" where
  "abort_current st =
     (case abortController st of
        None \<Rightarrow> st
      | Some c \<Rightarrow> st\<lparr> controllers := (controllers st)[c := True] \<rparr>)"

definition new_controller :: "state \<Rightarrow> state" where
  "new_controller st =
     st\<lparr> abortController := Some (length (controllers st)), controllers := controllers st @ [False] \<rparr>"

definition signal_aborted :: "nat option \<Rightarrow> bool list \<Rightarrow> bool" where
  "signal_aborted signal cs = (case signal of None \<Rightarrow> False | Some c \<Rightarrow> c < length cs \<and> cs ! c)"

text \<open>
  One turn of the loop of \<open>streamText\<close>, from its head to \<open>await delay\<close>: the generator
  ends, throws the AbortError, or holds the next chunk and the advanced cursor while it
  waits.  The source slices by UTF-16 code unit, the model by byte; they agree on ASCII
  text.
\<close>

datatype stream_step = Chunk string nat | StreamEnd | StreamAborted

definition streamText_next :: "string \<Rightarrow> nat option \<Rightarrow> nat \<Rightarrow> nat option \<Rightarrow> bool list \<Rightarrow> stream_step" where
  "streamText_next content chunkSize_opt cursor signal cs =
     (let chunkSize = max 1 (case chunkSize_opt of None \<Rightarrow> 5 | Some k \<Rightarrow> k)
      in if cursor < length content then
           if signal_aborted signal cs then StreamAborted
           else let nextCursor = min (length content) (cursor + chunkSize)
                in Chunk (take (nextCursor - cursor) (drop cursor content)) nextCursor
         else StreamEnd)"

subsection \<open>Asynchronous calls\<close>

text \<open>
  A call of \<open>sendMessage\<close>, \<open>sendFiles\<close> or \<open>regenerateAssistantMessage\<close> runs without
  interruption from one \<open>await\<close> on the outside world to the next: the completion
  request, the timer of \<open>streamText\<close>, the blob store.  A task holds the local variables
  of a suspended call; \<open>Settled\<close> is the promise it returned, fulfilled (None) or
  rejected with an error.
\<close>

datatype gen_kind = KSend | KFiles | KRegen

datatype error = AbortError | Failure

datatype phase =
    SavingFile "File list" File "File list" string
  | AwaitCompletion string ChatCompletionPayload
  | AwaitDelay string string nat string "nat option" "AssistantCard option"
  | Settled "error option"

record task =
  t_kind :: gen_kind
  t_sessionId :: string
  t_phase :: phase

definition text_message :: "string \<Rightarrow> string \<Rightarrow> ChatRole \<Rightarrow> string \<Rightarrow> int \<Rightarrow> MessageStatus \<Rightarrow> ChatMessage" where
  "text_message new_id sessionId role content now status =
     \<lparr> m_id = new_id, m_sessionId = sessionId, m_role = role, m_type = Text, m_content = content,
       m_createdAt = now, m_status = status, m_metadata = None, m_attachment = None,
       m_card = None \<rparr>"

definition card_message :: "string \<Rightarrow> string \<Rightarrow> int \<Rightarrow> AssistantCard \<Rightarrow> ChatMessage" where
  "card_message new_id sessionId now crd =
     \<lparr> m_id = new_id, m_sessionId = sessionId, m_role = Assistant, m_type = Card,
       m_content = c_title crd, m_createdAt = now, m_status = Sent, m_metadata = None,
       m_attachment = None, m_card = Some crd \<rparr>"

definition file_message :: "string \<Rightarrow> string \<Rightarrow> int \<Rightarrow> File \<Rightarrow> ChatMessage" where
  "file_message msgId sessionId now file =
     \<lparr> m_id = msgId, m_sessionId = sessionId, m_role = User, m_type = File,
       m_content = f_name file, m_createdAt = now, m_status = Sent,
       m_metadata = Some [(''size'', JNum (f_size file)), (''mime'', JString (f_type file))],
       m_attachment = Some \<lparr> a_name = f_name file, a_size = f_size file, a_mime = f_type file,
                             a_url = None, a_storageKey = Some (''file_'' @ msgId) \<rparr>,
       m_card = None \<rparr>"

definition model_name :: string where
  "model_name = ''gpt-4o-mini''"

text \<open>\<open>if (card) this.appendMessage(...)\<close>.\<close>

definition append_card :: "string \<Rightarrow> AssistantCard option \<Rightarrow> string \<Rightarrow> int \<Rightarrow> state \<Rightarrow> state" where
  "append_card sessionId crd new_id now st =
     (case crd of
        None \<Rightarrow> st
      | Some c \<Rightarrow> appendMessage sessionId (card_message new_id sessionId now c) now st)"

text \<open>
  What each caller does once \<open>streamIntoMessage\<close> has returned, up to and including
  its \<open>finally\<close> block.
\<close>

definition completed :: "gen_kind \<Rightarrow> string \<Rightarrow> string \<Rightarrow> AssistantCard option \<Rightarrow> string \<Rightarrow> int \<Rightarrow> state \<Rightarrow> state" where
  "completed kind sessionId messageId crd new_id now st =
     (case kind of
        KSend \<Rightarrow>
          (let st1 = setMessageStatus sessionId messageId Sent st;
               st2 = st1\<lparr> streamingMessageId := None \<rparr>;
               st3 = append_card sessionId crd new_id now st2;
               st4 = persist (touchSession sessionId now st3)
           in st4\<lparr> isSending := False, abortController := None \<rparr>)
      | KFiles \<Rightarrow>
          (let st1 = setMessageStatus sessionId messageId Sent st;
               st2 = st1\<lparr> streamingMessageId := None \<rparr>;
               st3 = append_card sessionId crd new_id now st2;
               st4 = persist (touchSession sessionId now st3)
           in st4\<lparr> isSending := False \<rparr>)
      | KRegen \<Rightarrow>
          (let st1 = setMessageStatus sessionId messageId Sent st;
               st2 = append_card sessionId crd new_id now st1;
               st3 = persist st2
           in st3\<lparr> abortController := None \<rparr>))"

text \<open>
  The \<open>catch\<close> blocks: \<open>sendMessage\<close> rethrows, \<open>sendFiles\<close> and the regeneration
  swallow the error.  The result is how the promise of the call settles.
\<close>

definition failed :: "gen_kind \<Rightarrow> string \<Rightarrow> string \<Rightarrow> error \<Rightarrow> int \<Rightarrow> state \<Rightarrow> error option \<times> state" where
  "failed kind sessionId messageId e now st =
     (case kind of
        KSend \<Rightarrow>
          (let st1 = setMessageStatus sessionId messageId Error st;
               st2 = persist (st1\<lparr> streamingMessageId := None \<rparr>)
           in (Some e, st2\<lparr> isSending := False, abortController := None \<rparr>))
      | KFiles \<Rightarrow>
          (let st1 = setMessageStatus sessionId messageId Error st;
               st2 = persist (st1\<lparr> streamingMessageId := None \<rparr>);
               st3 = persist (touchSession sessionId now st2)
           in (None, st3\<lparr> isSending := False \<rparr>))
      | KRegen \<Rightarrow>
          (let st1 = setMessageStatus sessionId messageId Error st;
               st2 = persist st1
           in (None, st2\<lparr> abortController := None \<rparr>)))"

text \<open>
  \<open>streamIntoMessage\<close> asks the generator for its next chunk.  The AbortError of the
  generator is caught inside \<open>streamIntoMessage\<close>, which then returns as it does at the
  end of the stream.
\<close>

definition stream_continue ::
  "task \<Rightarrow> string \<Rightarrow> string \<Rightarrow> nat \<Rightarrow> nat option \<Rightarrow> AssistantCard option \<Rightarrow> string \<Rightarrow> int \<Rightarrow> state \<Rightarrow> task \<times> state" where
  "stream_continue t messageId content cursor signal crd new_id now st =
     (case streamText_next content (Some 4) cursor signal (controllers st) of
        Chunk chunk nextCursor \<Rightarrow>
          (t\<lparr> t_phase := AwaitDelay messageId content nextCursor chunk signal crd \<rparr>, st)
      | StreamEnd \<Rightarrow>
          (t\<lparr> t_phase := Settled None \<rparr>,
           completed (t_kind t) (t_sessionId t) messageId crd new_id now st)
      | StreamAborted \<Rightarrow>
          (t\<lparr> t_phase := Settled None \<rparr>,
           completed (t_kind t) (t_sessionId t) messageId crd new_id now st))"

definition fail_task :: "task \<Rightarrow> string \<Rightarrow> error \<Rightarrow> int \<Rightarrow> state \<Rightarrow> task \<times> state" where
  "fail_task t messageId e now st =
     (let (outcome, st1) = failed (t_kind t) (t_sessionId t) messageId e now st
      in (t\<lparr> t_phase := Settled outcome \<rparr>, st1))"

text \<open>The synthetic line of \<open>sendFiles\<close>; its prefix is U+5DF2 U+4E0A U+4F20 U+6587 U+4EF6 U+FF1A.\<close>

fun join :: "string \<Rightarrow> string list \<Rightarrow> string" where
  "join sep [] = []"
| "join sep [x] = x"
| "join sep (x # y # ys) = x @ sep @ join sep (y # ys)"

definition round_kb :: "int \<Rightarrow> int" where
  "round_kb size_bytes = (2 * size_bytes + 1024) div 2048"

definition summaryForApi :: "File list \<Rightarrow> string" where
  "summaryForApi files =
     [CHR 0xE5, CHR 0xB7, CHR 0xB2, CHR 0xE4, CHR 0xB8, CHR 0x8A, CHR 0xE4, CHR 0xBC, CHR 0xA0,
      CHR 0xE6, CHR 0x96, CHR 0x87, CHR 0xE4, CHR 0xBB, CHR 0xB6, CHR 0xEF, CHR 0xBC, CHR 0x9A]
     @ join '', '' (map (\<lambda>f. f_name f @ '' ('' @ show_int (round_kb (f_size f)) @ '' KB)'') files)"

text \<open>
  The common part of \<open>sendMessage\<close> and \<open>sendFiles\<close> from the placeholder to the
  completion request.  \<open>sendMessage\<close> sets \<open>isSending\<close> here, \<open>sendFiles\<close> has set it
  at its start.
\<close>

definition request_completion ::
  "gen_kind \<Rightarrow> string \<Rightarrow> string \<Rightarrow> int \<Rightarrow> ContextMessage list \<Rightarrow> state \<Rightarrow> task \<times> state" where
  "request_completion kind sessionId placeholder_id now extra st =
     (let placeholder = text_message placeholder_id sessionId Assistant [] now Streaming;
          st1 = appendMessage sessionId placeholder now st;
          st2 = st1\<lparr> streamingMessageId := Some placeholder_id \<rparr>;
          st3 = persist (if kind = KSend then st2\<lparr> isSending := True \<rparr> else st2);
          (contextMessages, st4) = buildContextMessages sessionId st3;
          st5 = new_controller (abort_current st4)
      in (\<lparr> t_kind = kind, t_sessionId = sessionId,
            t_phase = AwaitCompletion placeholder_id
                        \<lparr> p_model = model_name, p_messages = contextMessages @ extra,
                          p_stream = True \<rparr> \<rparr>,
          st5))"

text \<open>\<open>sendMessage\<close> up to \<open>await createChatCompletion\<close>; None when it returns at once.\<close>

definition sendMessage_start ::
  "string \<Rightarrow> string \<Rightarrow> string \<Rightarrow> string \<Rightarrow> int \<Rightarrow> state \<Rightarrow> task option \<times> state" where
  "sendMessage_start content session_id user_id placeholder_id now st =
     (let trimmed = trim content
      in if trimmed = [] then (None, st)
         else
           (let (sessionId, st1) = ensureSession session_id now st;
                userMessage = text_message user_id sessionId User trimmed now Sent;
                st2 = appendMessage sessionId userMessage now st1;
                (t, st3) = request_completion KSend sessionId placeholder_id now [] st2
            in (Some t, st3)))"

text \<open>\<open>sendFiles\<close> up to the first \<open>await saveFile\<close>.\<close>

definition sendFiles_start ::
  "File list \<Rightarrow> string \<Rightarrow> string \<Rightarrow> int \<Rightarrow> state \<Rightarrow> task option \<times> state" where
  "sendFiles_start files session_id msgId now st =
     (case files of
        [] \<Rightarrow> (None, st)
      | file # rest \<Rightarrow>
          (let (sessionId, st1) = ensureSession session_id now st;
               st2 = st1\<lparr> isSending := True \<rparr>
           in (Some \<lparr> t_kind = KFiles, t_sessionId = sessionId,
                      t_phase = SavingFile files file rest msgId \<rparr>,
               st2)))"

text \<open>
  \<open>regenerateAssistantMessage\<close> up to \<open>await createChatCompletion\<close>.  \<open>count_cards\<close>
  is the \<open>while\<close> loop that counts the cards after the target.
\<close>

fun findIndex :: "('a \<Rightarrow> bool) \<Rightarrow> 'a list \<Rightarrow> nat option" where
  "findIndex P [] = None"
| "findIndex P (x # xs) = (if P x then Some 0 else map_option Suc (findIndex P xs))"

fun count_cards :: "ChatMessage list \<Rightarrow> nat" where
  "count_cards [] = 0"
| "count_cards (m # ms) =
     (if m_role m = Assistant \<and> m_type m = Card then Suc (count_cards ms) else 0)"

definition regenerate_start :: "string \<Rightarrow> int \<Rightarrow> state \<Rightarrow> task option \<times> state" where
  "regenerate_start messageId now st =
     (if \<not> truthy (activeSessionId st) then (None, st)
      else
        (let sessionId = the (activeSessionId st);
             (list, st1) = getMessages sessionId st
         in case findIndex (\<lambda>m. m_id m = messageId) list of
              None \<Rightarrow> (None, st1)
            | Some index \<Rightarrow>
                (case find (\<lambda>m. m_role m = User) (rev (take index list)) of
                   None \<Rightarrow> (None, st1)
                 | Some previousUser \<Rightarrow>
                     (let removeCount = count_cards (drop (index + 1) list);
                          list1 = take (index + 1) list @ drop (index + 1 + removeCount) list;
                          st2 = (if removeCount > 0
                                 then persist (replaceMessageIds sessionId (map m_id list1) now
                                                 (set_messages sessionId list1 st1))
                                 else st1);
                          st3 = setMessageStatus sessionId messageId Streaming st2;
                          st4 = updateMessage sessionId messageId (\<lambda>m. m\<lparr> m_content := [] \<rparr>) st3;
                          st5 = new_controller (abort_current st4)
                      in (Some \<lparr> t_kind = KRegen, t_sessionId = sessionId,
                                 t_phase = AwaitCompletion messageId
                                   \<lparr> p_model = model_name,
                                     p_messages = [\<lparr> cm_role = User,
                                                     cm_content = m_content previousUser \<rparr>],
                                     p_stream = True \<rparr> \<rparr>,
                          st5)))))"

subsection \<open>Resuming a suspended call\<close>

text \<open>
  What the outside world hands to a waiting call: the completion response with its
  optional card, or its failure; the end of a delay of \<open>streamText\<close>, with the outcome of
  the simulated mid-stream failure; the end of \<open>saveFile\<close>, whose failure is only
  logged.  Each comes with the identifier \<open>nanoid\<close> would return next and the time.
\<close>

datatype resume_event =
    CompletionResolved ChatCompletionResponse "AssistantCard option" string int
  | CompletionRejected error int
  | DelayElapsed bool string int
  | SaveFileSettled bool string int

fun resume :: "resume_event \<Rightarrow> task \<Rightarrow> state \<Rightarrow> (task \<times> state) option" where
  "resume (CompletionResolved response crd new_id now) t st =
     (case t_phase t of
        AwaitCompletion messageId payload \<Rightarrow>
          (let assistantContent = (case r_choices response of [] \<Rightarrow> [] | ch # _ \<Rightarrow> ch_content ch);
               st1 = updateMessage (t_sessionId t) messageId
                       (\<lambda>m. m\<lparr> m_content := [], m_status := Streaming \<rparr>) st
           in Some (stream_continue t messageId assistantContent 0 (abortController st1) crd
                      new_id now st1))
      | _ \<Rightarrow> None)"
| "resume (CompletionRejected e now) t st =
     (case t_phase t of
        AwaitCompletion messageId payload \<Rightarrow> Some (fail_task t messageId e now st)
      | _ \<Rightarrow> None)"
| "resume (DelayElapsed mock_error new_id now) t st =
     (case t_phase t of
        AwaitDelay messageId content cursor chunk signal crd \<Rightarrow>
          if mock_error then Some (fail_task t messageId Failure now st)
          else
            (let st1 = updateMessage (t_sessionId t) messageId
                         (\<lambda>m. m\<lparr> m_content := m_content m @ chunk \<rparr>) st
             in Some (stream_continue t messageId content cursor signal crd new_id now st1))
      | _ \<Rightarrow> None)"
| "resume (SaveFileSettled ok new_id now) t st =
     (case t_phase t of
        SavingFile files file rest msgId \<Rightarrow>
          (let st1 = appendMessage (t_sessionId t) (file_message msgId (t_sessionId t) now file) now st
           in case rest of
                next_file # rest1 \<Rightarrow>
                  Some (t\<lparr> t_phase := SavingFile files next_file rest1 new_id \<rparr>, st1)
              | [] \<Rightarrow>
                  Some (request_completion KFiles (t_sessionId t) new_id now
                          [\<lparr> cm_role = User, cm_content = summaryForApi files \<rparr>] st1))
      | _ \<Rightarrow> None)"

subsection \<open>The engine as a transition system\<close>

text \<open>
  An event is a call from the user interface or the resumption of the suspended call
  with a given index.  \<open>step\<close> is None when the event cannot happen in the state.
\<close>

datatype event =
    SendMessage string string string string int
  | SendFiles "File list" string string int
  | Regenerate string int
  | SelectSession string
  | Resume nat resume_event

type_synonym system = "state \<times> task list"

definition spawn :: "task option \<times> state \<Rightarrow> task list \<Rightarrow> system" where
  "spawn r ts = (snd r, ts @ (case fst r of None \<Rightarrow> [] | Some t \<Rightarrow> [t]))"

fun step :: "event \<Rightarrow> system \<Rightarrow> system option" where
  "step (SendMessage content session_id user_id placeholder_id now) (st, ts) =
     Some (spawn (sendMessage_start content session_id user_id placeholder_id now st) ts)"
| "step (SendFiles files session_id msgId now) (st, ts) =
     Some (spawn (sendFiles_start files session_id msgId now st) ts)"
| "step (Regenerate messageId now) (st, ts) =
     Some (spawn (regenerate_start messageId now st) ts)"
| "step (SelectSession i) (st, ts) = Some (setActiveSession i st, ts)"
| "step (Resume i ev) (st, ts) =
     (if i < length ts then
        (case resume ev (ts ! i) st of
           None \<Rightarrow> None
         | Some (t, st1) \<Rightarrow> Some (st1, ts[i := t]))
      else None)"

fun run :: "event list \<Rightarrow> system \<Rightarrow> system option" where
  "run [] s = Some s"
| "run (e # es) s = (case step e s of None \<Rightarrow> None | Some s1 \<Rightarrow> run es s1)"

text \<open>The stores as they start on an empty storage.\<close>

definition initial_state :: state where
  "initial_state =
     \<lparr> sessions = [], activeSessionId = None, messagesBySession = [],
       streamingMessageId = None, isSending = False, abortController = None,
       controllers = [], has_window = True, localStorage = None \<rparr>"

definition streaming_count :: "state \<Rightarrow> nat" where
  "streaming_count st =
     length (filter (\<lambda>m. m_status m = Streaming) (concat (map snd (messagesBySession st))))"

section \<open>Notions used to state the properties\<close>

text \<open>A title that matches the pattern spells its number without leading zeros.\<close>

definition canonical_title :: "string \<Rightarrow> bool" where
  "canonical_title t = (case title_match t of None \<Rightarrow> True | Some ds \<Rightarrow> ds = show_nat (parse_nat ds))"

definition session_titled :: "string \<Rightarrow> string \<Rightarrow> ChatSession" where
  "session_titled i t = \<lparr> s_id = i, s_title = t, s_createdAt = 0, s_updatedAt = 0, s_messageIds = [] \<rparr>"

text \<open>Two registries: titles numbered 1 and 3, and a single title numbered \<open>01\<close>.\<close>

definition registry_1_3 :: sessions_state where
  "registry_1_3 =
     \<lparr> sessions = [session_titled ''a'' (title_prefix @ ''1''), session_titled ''b'' (title_prefix @ ''3'')],
       activeSessionId = Some ''a'' \<rparr>"

definition registry_01 :: sessions_state where
  "registry_01 =
     \<lparr> sessions = [session_titled ''a'' (title_prefix @ ''01'')], activeSessionId = Some ''a'' \<rparr>"

text \<open>What may follow a value in a printed text: nothing, a comma, or a closing bracket.\<close>

definition delimited :: "string \<Rightarrow> bool" where
  "delimited rest = (rest = [] \<or> hd rest \<in> set '',]}'')"


text \<open>
  A message map stands for a JavaScript record when no key occurs twice, in the map
  and in the metadata of its messages.
\<close>

definition wf_message :: "ChatMessage \<Rightarrow> bool" where
  "wf_message m = (case m_metadata m of None \<Rightarrow> True | Some md \<Rightarrow> wf_json (JObject md))"

definition wf_messages :: "(string \<times> ChatMessage list) list \<Rightarrow> bool" where
  "wf_messages ms = (distinct (map fst ms) \<and> (\<forall>kv \<in> set ms. \<forall>m \<in> set (snd kv). wf_message m))"

text \<open>The persisted state as the JavaScript value \<open>{sessions, messages}\<close>.\<close>

definition snapshot_json :: "ChatSession list \<Rightarrow> (string \<times> ChatMessage list) list \<Rightarrow> json" where
  "snapshot_json ss ms = JObject [(''sessions'', sessions_json ss), (''messages'', messages_json ms)]"

text \<open>A snapshot: one session holding a user text, an uploaded file and a card.\<close>

definition example_sessions :: "ChatSession list" where
  "example_sessions =
     [\<lparr> s_id = ''s1'', s_title = ''first'', s_createdAt = 1700000000000,
        s_updatedAt = 1700000000500, s_messageIds = [''u1'', ''f1'', ''k1''] \<rparr>]"

definition example_card :: AssistantCard where
  "example_card =
     \<lparr> c_cardType = Contact, c_title = ''T'', c_description = ''D'', c_actionText = ''A'',
       c_actionUrl = ''U'' \<rparr>"

definition example_messages :: "(string \<times> ChatMessage list) list" where
  "example_messages =
     [(''s1'',
       [text_message ''u1'' ''s1'' User ''Hello'' 1700000000000 Sent,
        file_message ''f1'' ''s1'' 1700000000100 \<lparr> f_name = ''a.txt'', f_size = 1536, f_type = ''text/plain'' \<rparr>,
        card_message ''k1'' ''s1'' 1700000000500 example_card])]"

subsection \<open>Views of a system, and example runs\<close>

definition message_view :: "string \<Rightarrow> system \<Rightarrow> (string \<times> MessageStatus \<times> string) list" where
  "message_view sessionId s = map (\<lambda>m. (m_id m, m_status m, m_content m)) (messages_of sessionId (fst s))"

definition outcomes :: "system \<Rightarrow> phase list" where
  "outcomes s = map t_phase (snd s)"

definition response_with :: "string \<Rightarrow> ChatCompletionResponse" where
  "response_with c = \<lparr> r_choices = [\<lparr> ch_index = 0, ch_role = Assistant, ch_content = c \<rparr>] \<rparr>"

text \<open>Two sends, the second one started while the first waits for its completion.\<close>

definition two_sends :: "event list" where
  "two_sends =
     [SendMessage ''a'' ''s1'' ''u1'' ''p1'' 1,
      SendMessage ''b'' ''s2'' ''u2'' ''p2'' 2]"

text \<open>
  A turn run to its end, a second send, and a regeneration of the first reply while
  the second send waits for its completion.
\<close>

definition regenerate_during_send :: "event list" where
  "regenerate_during_send =
     [SendMessage ''a'' ''s1'' ''u1'' ''a1'' 1,
      Resume 0 (CompletionResolved (response_with ''one'') None ''c1'' 2),
      Resume 0 (DelayElapsed False ''c1'' 3),
      SendMessage ''b'' ''s2'' ''u2'' ''p2'' 4,
      Regenerate ''a1'' 5]"

text \<open>The two sends, followed by both completions and the delays of both streams.\<close>

definition overlapping_sends :: "event list" where
  "overlapping_sends =
     two_sends @
     [Resume 0 (CompletionResolved (response_with ''Hi there'') None ''c1'' 3),
      Resume 0 (DelayElapsed False ''c1'' 4),
      Resume 0 (DelayElapsed False ''c1'' 5),
      Resume 1 (CompletionResolved (response_with ''Yes'') None ''c2'' 6),
      Resume 1 (DelayElapsed False ''c2'' 7)]"

text \<open>A second send started while the first one streams a reply of four chunks.\<close>

definition send_during_stream :: "event list" where
  "send_during_stream =
     [SendMessage ''a'' ''s1'' ''u1'' ''p1'' 1,
      Resume 0 (CompletionResolved (response_with ''Hi there, friend'') None ''c1'' 2),
      Resume 0 (DelayElapsed False ''c1'' 3),
      SendMessage ''b'' ''s2'' ''u2'' ''p2'' 4,
      Resume 0 (DelayElapsed False ''c1'' 5)]"

text \<open>
  Two turns run to their end one after the other, then the first reply is regenerated
  and the completion comes with a card.
\<close>

definition regenerate_first_reply :: "event list" where
  "regenerate_first_reply =
     [SendMessage ''a'' ''s1'' ''u1'' ''a1'' 1,
      Resume 0 (CompletionResolved (response_with ''one'') None ''c1'' 2),
      Resume 0 (DelayElapsed False ''c1'' 3),
      SendMessage ''b'' ''s2'' ''u2'' ''a2'' 4,
      Resume 1 (CompletionResolved (response_with ''two'') None ''c2'' 5),
      Resume 1 (DelayElapsed False ''c2'' 6),
      Regenerate ''a1'' 7,
      Resume 2 (CompletionResolved (response_with ''new'') (Some example_card) ''k1'' 8),
      Resume 2 (DelayElapsed False ''k1'' 9)]"

definition message_order :: "string \<Rightarrow> system \<Rightarrow> (string \<times> MessageType) list \<times> string list option" where
  "message_order sessionId s =
     (map (\<lambda>m. (m_id m, m_type m)) (messages_of sessionId (fst s)), messageIds_of sessionId (fst s))"

text \<open>
  The saves of a \<open>sendFiles\<close> call, one for each file.  While the call waits for a
  save anything may happen to the stores: \<open>env\<close> is what happened.
\<close>

fun saves :: "(bool \<times> string \<times> int \<times> (state \<Rightarrow> state)) list \<Rightarrow> task \<times> state \<Rightarrow> (task \<times> state) option" where
  "saves [] r = Some r"
| "saves ((ok, new_id, now, env) # rest) (t, st) =
     (case resume (SaveFileSettled ok new_id now) t (env st) of
        None \<Rightarrow> None
      | Some r \<Rightarrow> saves rest r)"

definition example_files :: "File list" where
  "example_files =
     [\<lparr> f_name = ''a.txt'', f_size = 1536, f_type = ''text/plain'' \<rparr>,
      \<lparr> f_name = ''b.txt'', f_size = 10, f_type = ''text/plain'' \<rparr>]"

text \<open>The user selects another session while each of the two files is saved.\<close>

definition example_saves :: "(bool \<times> string \<times> int \<times> (state \<Rightarrow> state)) list" where
  "example_saves =
     [(True, ''f2'', 2, setActiveSession ''other''),
      (False, ''p2'', 3, setActiveSession ''other'')]"

subsection \<open>The frame of a regeneration\<close>

text \<open>
  The messages of the active session that stand before the message to regenerate, and
  the messages at the same positions in a later state.
\<close>

definition before_target :: "string \<Rightarrow> state \<Rightarrow> ChatMessage list" where
  "before_target messageId st =
     takeWhile (\<lambda>m. m_id m \<noteq> messageId) (messages_of (the (activeSessionId st)) st)"

definition frame_of :: "string \<Rightarrow> state \<Rightarrow> state \<Rightarrow> ChatMessage list" where
  "frame_of messageId st0 st =
     take (length (before_target messageId st0)) (messages_of (the (activeSessionId st0)) st)"

text \<open>
  The states a regeneration of \<open>messageId\<close> started in \<open>st0\<close> passes through: its
  start, its own resumptions (whatever the backend and the timers answer), and, while
  it is suspended, any change to the stores made elsewhere that leaves those positions
  alone; cancellations are among these.
\<close>

inductive regen_reach :: "string \<Rightarrow> int \<Rightarrow> state \<Rightarrow> task \<times> state \<Rightarrow> bool"
  for messageId :: string and now :: int and st0 :: state where
  started: "regenerate_start messageId now st0 = (Some t, st1) \<Longrightarrow> regen_reach messageId now st0 (t, st1)"
| resumed: "regen_reach messageId now st0 (t, st) \<Longrightarrow> resume ev t st = Some (t1, st1)
            \<Longrightarrow> regen_reach messageId now st0 (t1, st1)"
| elsewhere: "regen_reach messageId now st0 (t, st)
            \<Longrightarrow> frame_of messageId st0 st1 = frame_of messageId st0 st
            \<Longrightarrow> regen_reach messageId now st0 (t, st1)"

text \<open>A session with one turn and a card, and a regeneration of its reply that is cancelled
  by another call and then fails.\<close>

definition regen_state :: state where
  "regen_state =
     initial_state
       \<lparr> sessions := [\<lparr> s_id = ''s1'', s_title = ''t'', s_createdAt = 0, s_updatedAt = 0,
                         s_messageIds = [''u1'', ''a1'', ''k1''] \<rparr>],
         activeSessionId := Some ''s1'',
         messagesBySession :=
           [(''s1'', [text_message ''u1'' ''s1'' User ''Hello'' 1 Sent,
                      text_message ''a1'' ''s1'' Assistant ''Hi'' 2 Sent,
                      card_message ''k1'' ''s1'' 3 example_card])] \<rparr>"

definition regen_started :: "task \<times> state" where
  "regen_started =
     (the (fst (regenerate_start ''a1'' 4 regen_state)), snd (regenerate_start ''a1'' 4 regen_state))"

definition regen_cancelled :: "task \<times> state" where
  "regen_cancelled = (fst regen_started, new_controller (abort_current (snd regen_started)))"

definition regen_ended :: "task \<times> state" where
  "regen_ended =
     the (resume (CompletionResolved (response_with ''Hello again'') (Some example_card) ''k2'' 5)
            (fst regen_cancelled) (snd regen_cancelled))"

text \<open>A list whose first \<open>n\<close> messages are not the target keeps them under the two
  writes a generation makes: the update of the target and the append of a card.\<close>

definition framed :: "nat \<Rightarrow> string \<Rightarrow> ChatMessage list \<Rightarrow> bool" where
  "framed n messageId l = (n \<le> length l \<and> (\<forall>m \<in> set (take n l). m_id m \<noteq> messageId))"

text \<open>The message a suspended call writes to.\<close>

fun targets :: "string \<Rightarrow> phase \<Rightarrow> bool" where
  "targets messageId (AwaitCompletion m payload) = (m = messageId)"
| "targets messageId (AwaitDelay m content cursor chunk signal crd) = (m = messageId)"
| "targets messageId (Settled outcome) = True"
| "targets messageId (SavingFile files f rest msgId) = False"


section \<open>Properties of the session registry\<close>

lemma update_first_idem:
  assumes "\<And>x. P x \<Longrightarrow> P (f x)" "\<And>x. P x \<Longrightarrow> g (f x) = f x"
  shows "update_first P g (update_first P f xs) = update_first P f xs"
  using assms by (induction xs) auto

text \<open>
  Claim C7.  Calling \<open>appendMessageId\<close> a second time with the same session and message
  id, at any later time, changes nothing: the registry after the two calls is the
  registry after the first one, so the list of message ids and its length are those
  the first call left.
\<close>

theorem appendMessageId_idempotent:
  "appendMessageId sessionId messageId now2 (appendMessageId sessionId messageId now1 st)
     = appendMessageId sessionId messageId now1 st"
  unfolding appendMessageId_def
  by (simp add: update_first_idem)

subsection \<open>Decimal numerals\<close>

lemma digit_val_digit_char: "d < 10 \<Longrightarrow> digit_val (digit_char d) = d"
  by (simp add: digit_val_def digit_char_def)

lemma is_digit_digit_char: "d < 10 \<Longrightarrow> is_digit (digit_char d)"
  by (simp add: is_digit_def digit_char_def)

lemma parse_nat_snoc: "parse_nat (ds @ [c]) = 10 * parse_nat ds + digit_val c"
  by (simp add: parse_nat_def)

lemma parse_show_nat: "parse_nat (show_nat n) = n"
proof (induction n rule: show_nat.induct)
  case (1 n)
  show ?case
  proof (cases "n < 10")
    case True
    then show ?thesis
      by (subst show_nat.simps) (simp add: parse_nat_def digit_val_digit_char)
  next
    case False
    with 1 have "parse_nat (show_nat (n div 10)) = n div 10" by simp
    with False show ?thesis
      by (subst show_nat.simps) (simp add: parse_nat_snoc digit_val_digit_char)
  qed
qed

lemma show_nat_digits: "list_all is_digit (show_nat n)"
proof (induction n rule: show_nat.induct)
  case (1 n)
  then show ?case
    by (subst show_nat.simps) (simp add: is_digit_digit_char)
qed

lemma show_nat_nonempty: "show_nat n \<noteq> []"
  by (subst show_nat.simps) simp

subsection \<open>Automatic numbering\<close>

lemma title_match_show: "title_match (title_prefix @ show_nat n) = Some (show_nat n)"
  by (simp add: title_match_def show_nat_digits show_nat_nonempty)

lemma title_number_show: "title_number (title_prefix @ show_nat n) = n"
  by (simp add: title_number_def title_match_show parse_show_nat)

lemma nextNumber_loop_ge: "n \<le> nextNumber_loop n xs"
proof (induction xs arbitrary: n)
  case Nil
  show ?case by simp
next
  case (Cons x xs)
  from Cons [of n] Cons [of "n + 1"] show ?case by auto
qed

lemma nextNumber_loop_fresh: "sorted xs \<Longrightarrow> nextNumber_loop n xs \<notin> set xs"
proof (induction xs arbitrary: n)
  case Nil
  show ?case by simp
next
  case (Cons x xs)
  from Cons.prems have s: "sorted xs" and le: "\<forall>y\<in>set xs. x \<le> y" by auto
  show ?case
  proof (cases "x = n")
    case True
    with Cons.IH [OF s, of "n + 1"] nextNumber_loop_ge [of "n + 1" xs] show ?thesis by auto
  next
    case False
    show ?thesis
    proof (cases "x > n")
      case True
      with False le show ?thesis by auto
    next
      case lt: False
      with False Cons.IH [OF s, of n] nextNumber_loop_ge [of n xs] show ?thesis by auto
    qed
  qed
qed

lemma nextNumber_loop_below: "n \<le> m \<Longrightarrow> m < nextNumber_loop n xs \<Longrightarrow> m \<in> set xs"
proof (induction xs arbitrary: n)
  case Nil
  then show ?case by simp
next
  case (Cons x xs)
  show ?case
  proof (cases "x = n")
    case True
    show ?thesis
    proof (cases "m = n")
      case True
      with \<open>x = n\<close> show ?thesis by simp
    next
      case False
      with Cons.prems True have "n + 1 \<le> m" "m < nextNumber_loop (n + 1) xs" by auto
      from Cons.IH [OF this] show ?thesis by simp
    qed
  next
    case False
    show ?thesis
    proof (cases "x > n")
      case True
      with False Cons.prems show ?thesis by auto
    next
      case lt: False
      with False Cons.prems have "m < nextNumber_loop n xs" by auto
      from Cons.IH [OF Cons.prems(1) this] show ?thesis by simp
    qed
  qed
qed

lemma set_existingNumbers:
  "set (existingNumbers ss) = {n. 0 < n \<and> (\<exists>s \<in> set ss. title_number (s_title s) = n)}"
  by (auto simp: existingNumbers_def)

lemma nextNumber_pos: "0 < nextNumber ss"
  using nextNumber_loop_ge [of 1 "existingNumbers ss"] by (simp add: nextNumber_def)

lemma nextNumber_unused: "s \<in> set ss \<Longrightarrow> title_number (s_title s) \<noteq> nextNumber ss"
proof
  assume s: "s \<in> set ss" and eq: "title_number (s_title s) = nextNumber ss"
  have "sorted (existingNumbers ss)" by (simp add: existingNumbers_def)
  then have "nextNumber ss \<notin> set (existingNumbers ss)"
    unfolding nextNumber_def by (rule nextNumber_loop_fresh)
  moreover from s eq nextNumber_pos [of ss] have "nextNumber ss \<in> set (existingNumbers ss)"
    unfolding set_existingNumbers by auto
  ultimately show False by blast
qed

lemma nextNumber_least:
  assumes "0 < m" "m < nextNumber ss"
  shows "\<exists>s \<in> set ss. title_number (s_title s) = m"
proof -
  from assms have "m \<in> set (existingNumbers ss)"
    using nextNumber_loop_below [of 1 m "existingNumbers ss"] by (simp add: nextNumber_def)
  then show ?thesis unfolding set_existingNumbers by auto
qed

lemma auto_title_unused: "title_prefix @ show_nat (nextNumber ss) \<notin> s_title ` set ss"
proof
  assume "title_prefix @ show_nat (nextNumber ss) \<in> s_title ` set ss"
  then obtain s where s: "s \<in> set ss" "s_title s = title_prefix @ show_nat (nextNumber ss)"
    by auto
  then have "title_number (s_title s) = nextNumber ss" by (simp add: title_number_show)
  with nextNumber_unused [OF s(1)] show False by simp
qed

lemma canonical_title_number:
  assumes "canonical_title t" "title_number t = m" "0 < m"
  shows "t = title_prefix @ show_nat m"
proof (cases "title_match t")
  case None
  with assms show ?thesis by (simp add: title_number_def)
next
  case (Some ds)
  with assms have ds: "ds = show_nat m" by (simp add: canonical_title_def title_number_def)
  from Some have "take (length title_prefix) t = title_prefix" "drop (length title_prefix) t = ds"
    by (auto simp: title_match_def Let_def split: if_splits)
  then have "t = title_prefix @ ds" by (metis append_take_drop_id)
  with ds show ?thesis by simp
qed

text \<open>
  Claim C6, amended.  Created without a title, the new session is titled with the
  smallest positive integer N that is not the number of any existing title matching
  the pattern, where the number of a title is what \<open>parseInt\<close> reads from its digits
  (so a title spelt with leading zeros counts for its number).  That title is not in
  use.  When every matching title is spelt without leading zeros, N is the smallest
  positive integer whose title is not in use.  The new session is put at the front of
  the list and becomes the active one.
\<close>

theorem createSession_auto_number:
  assumes "createSession None new_id now st = (newSession, st')"
  shows "s_title newSession = title_prefix @ show_nat (nextNumber (sessions st))
       \<and> 0 < nextNumber (sessions st)
       \<and> (\<forall>s \<in> set (sessions st). title_number (s_title s) \<noteq> nextNumber (sessions st))
       \<and> (\<forall>m. 0 < m \<and> m < nextNumber (sessions st)
              \<longrightarrow> (\<exists>s \<in> set (sessions st). title_number (s_title s) = m))
       \<and> s_title newSession \<notin> s_title ` set (sessions st)
       \<and> ((\<forall>s \<in> set (sessions st). canonical_title (s_title s))
            \<longrightarrow> (\<forall>m. 0 < m \<and> m < nextNumber (sessions st)
                   \<longrightarrow> title_prefix @ show_nat m \<in> s_title ` set (sessions st)))
       \<and> sessions st' = newSession # sessions st
       \<and> activeSessionId st' = Some (s_id newSession)"
proof -
  let ?ss = "sessions st"
  from assms have t: "s_title newSession = title_prefix @ show_nat (nextNumber ?ss)"
    and rest: "sessions st' = newSession # ?ss" "activeSessionId st' = Some (s_id newSession)"
    by (auto simp: createSession_def new_title_def Let_def)
  have canon: "title_prefix @ show_nat m \<in> s_title ` set ?ss"
    if c: "\<forall>s \<in> set ?ss. canonical_title (s_title s)" and m: "0 < m" "m < nextNumber ?ss" for m
  proof -
    from nextNumber_least [OF m] obtain s where s: "s \<in> set ?ss" "title_number (s_title s) = m"
      by blast
    with c m(1) have "s_title s = title_prefix @ show_nat m"
      by (intro canonical_title_number) auto
    with s(1) show ?thesis by force
  qed
  show ?thesis
    using t rest nextNumber_pos [of ?ss] auto_title_unused [of ?ss] canon
    by (auto dest: nextNumber_unused nextNumber_least)
qed

lemma show_nat_1: "show_nat 1 = ''1''"
  by code_simp

lemma show_nat_2: "show_nat 2 = ''2''"
  by code_simp

lemma nextNumber_registry_1_3: "nextNumber (sessions registry_1_3) = 2"
  by code_simp

lemma nextNumber_registry_01: "nextNumber (sessions registry_01) = 2"
  by code_simp

text \<open>With titles numbered 1 and 3 the next title carries number 2.\<close>

theorem createSession_auto_number_witness:
  "s_title (fst (createSession None ''n'' 7 registry_1_3)) = title_prefix @ ''2''
   \<and> title_prefix @ ''1'' \<in> s_title ` set (sessions registry_1_3)
   \<and> title_prefix @ ''2'' \<notin> s_title ` set (sessions registry_1_3)
   \<and> sessions (snd (createSession None ''n'' 7 registry_1_3))
       = fst (createSession None ''n'' 7 registry_1_3) # sessions registry_1_3
   \<and> activeSessionId (snd (createSession None ''n'' 7 registry_1_3)) = Some ''n''"
proof -
  have h: "createSession None ''n'' 7 registry_1_3
             = (fst (createSession None ''n'' 7 registry_1_3),
                snd (createSession None ''n'' 7 registry_1_3))"
    by simp
  have c: "\<forall>s \<in> set (sessions registry_1_3). canonical_title (s_title s)"
    by code_simp
  have i: "s_id (fst (createSession None ''n'' 7 registry_1_3)) = ''n''"
    by (simp add: createSession_def Let_def)
  from createSession_auto_number [OF h]
  have t: "s_title (fst (createSession None ''n'' 7 registry_1_3))
             = title_prefix @ show_nat (nextNumber (sessions registry_1_3))"
    and u: "s_title (fst (createSession None ''n'' 7 registry_1_3))
             \<notin> s_title ` set (sessions registry_1_3)"
    and l: "(\<forall>s \<in> set (sessions registry_1_3). canonical_title (s_title s))
            \<longrightarrow> (\<forall>m. 0 < m \<and> m < nextNumber (sessions registry_1_3)
                   \<longrightarrow> title_prefix @ show_nat m \<in> s_title ` set (sessions registry_1_3))"
    and f: "sessions (snd (createSession None ''n'' 7 registry_1_3))
             = fst (createSession None ''n'' 7 registry_1_3) # sessions registry_1_3"
    and a: "activeSessionId (snd (createSession None ''n'' 7 registry_1_3))
             = Some (s_id (fst (createSession None ''n'' 7 registry_1_3)))"
    by blast+
  from t have t2: "s_title (fst (createSession None ''n'' 7 registry_1_3)) = title_prefix @ ''2''"
    unfolding nextNumber_registry_1_3 show_nat_2 .
  from l c have "title_prefix @ show_nat 1 \<in> s_title ` set (sessions registry_1_3)"
    unfolding nextNumber_registry_1_3 by simp
  then have one: "title_prefix @ ''1'' \<in> s_title ` set (sessions registry_1_3)"
    unfolding show_nat_1 .
  from t2 u one f a i show ?thesis by simp
qed

text \<open>
  The claim as stated fails where a title is spelt with leading zeros: with the one
  title numbered \<open>01\<close>, the new title carries number 2 although the title with number 1
  is not in use.
\<close>

theorem createSession_smallest_unused_counterexample:
  "s_title (fst (createSession None ''n'' 7 registry_01)) = title_prefix @ show_nat 2
   \<and> title_prefix @ show_nat 1 \<notin> s_title ` set (sessions registry_01)"
  unfolding show_nat_1 show_nat_2
  by (simp add: createSession_def new_title_def Let_def nextNumber_registry_01 show_nat_2)
    (simp add: registry_01_def session_titled_def)

section \<open>Printing and parsing JSON\<close>

subsection \<open>String literals\<close>

lemma hex_val_hex_char: "d < 16 \<Longrightarrow> hex_val (hex_char d) = d"
  by (simp add: hex_val_def hex_char_def is_digit_def)

lemma is_hex_hex_char: "d < 16 \<Longrightarrow> is_hex (hex_char d)"
  by (simp add: is_hex_def hex_char_def is_digit_def)

lemma hex_zero: "is_hex CHR ''0''" "hex_val CHR ''0'' = 0"
  by (simp_all add: is_hex_def hex_val_def is_digit_def)

lemma utf8_small: "n < 32 \<Longrightarrow> utf8 n = [char_of n]"
  by (simp add: utf8_def)

lemma parse_escape_u:
  assumes "(of_char c :: nat) < 32"
    and "parse_string_body r = Some (s, rest)"
  shows "parse_string_body
           (CHR 0x5C # CHR ''u'' # CHR ''0'' # CHR ''0'' # hex_char ((of_char c :: nat) div 16)
              # hex_char ((of_char c :: nat) mod 16) # r)
         = Some (c # s, rest)"
proof -
  let ?n = "of_char c :: nat"
  have d: "?n div 16 < 16" "?n mod 16 < 16" using assms(1) by auto
  have h: "hex_val (hex_char (?n div 16)) = ?n div 16" "hex_val (hex_char (?n mod 16)) = ?n mod 16"
    "is_hex (hex_char (?n div 16))" "is_hex (hex_char (?n mod 16))"
    using d by (simp_all only: hex_val_hex_char is_hex_hex_char)
  have u: "utf8 ?n = [c]"
    using assms(1) by (simp add: utf8_small)
  show ?thesis
    by (simp add: hex_zero h u assms(2) del: of_char_Char)
qed

lemma parse_quote_body: "parse_string_body (quote_body s @ rest) = Some (s, rest)"
proof (induction s)
  case Nil
  show ?case by simp
next
  case (Cons c cs)
  consider (ctl) "c \<in> {CHR 0x22, CHR 0x5C, CHR 0x08, CHR 0x0C, CHR 0x0A, CHR 0x0D, CHR 0x09}"
    | (u) "c \<notin> {CHR 0x22, CHR 0x5C, CHR 0x08, CHR 0x0C, CHR 0x0A, CHR 0x0D, CHR 0x09}"
          "(of_char c :: nat) < 32"
    | (plain) "c \<notin> {CHR 0x22, CHR 0x5C, CHR 0x08, CHR 0x0C, CHR 0x0A, CHR 0x0D, CHR 0x09}"
          "\<not> (of_char c :: nat) < 32"
    by blast
  then show ?case
  proof cases
    case ctl
    with Cons show ?thesis
      by (auto simp: escape_char_def unescape_def)
  next
    case u
    then have e: "escape_char c = [CHR 0x5C, CHR ''u'', CHR ''0'', CHR ''0'',
        hex_char ((of_char c :: nat) div 16), hex_char ((of_char c :: nat) mod 16)]"
      by (simp add: escape_char_def)
    show ?thesis
      unfolding quote_body.simps e using parse_escape_u [OF u(2) Cons] by simp
  next
    case plain
    then have e: "escape_char c = [c]" by (simp add: escape_char_def)
    from plain Cons show ?thesis
      unfolding quote_body.simps e by simp
  qed
qed

lemma parse_quote: "parse_string_body (tl (quote s) @ rest) = Some (s, rest)"
  by (simp add: quote_def parse_quote_body)

subsection \<open>Numbers\<close>

lemma digit_char_inj: "d < 10 \<Longrightarrow> digit_char d = CHR ''0'' \<Longrightarrow> d = 0"
proof -
  assume d: "d < 10" and e: "digit_char d = CHR ''0''"
  from e have "(of_char (digit_char d) :: nat) = of_char CHR ''0''" by simp
  with d show ?thesis by (simp add: digit_char_def)
qed

lemma show_nat_hd: "0 < n \<Longrightarrow> hd (show_nat n) \<noteq> CHR ''0''"
proof (induction n rule: show_nat.induct)
  case (1 n)
  show ?case
  proof (cases "n < 10")
    case True
    with "1.prems" show ?thesis
      by (subst show_nat.simps) (auto dest: digit_char_inj)
  next
    case False
    then have "0 < n div 10" by simp
    with 1 False have "hd (show_nat (n div 10)) \<noteq> CHR ''0''" by simp
    with False show ?thesis
      by (subst show_nat.simps) (simp add: show_nat_nonempty)
  qed
qed

lemma show_nat_0: "show_nat 0 = ''0''"
  by code_simp

lemma show_nat_no_leading_zero: "\<not> (1 < length (show_nat n) \<and> hd (show_nat n) = CHR ''0'')"
  by (cases "n = 0") (simp_all add: show_nat_0 show_nat_hd)

lemma show_nat_hd_digit: "is_digit (hd (show_nat n))"
  using show_nat_digits [of n] show_nat_nonempty [of n]
  by (cases "show_nat n") simp_all

lemma delimited_simps [simp]:
  "delimited []" "delimited (CHR '','' # r)" "delimited (CHR '']'' # r)" "delimited (CHR ''}'' # r)"
  by (simp_all add: delimited_def)

lemma delimited_not_digit: "delimited rest \<Longrightarrow> takeWhile is_digit rest = [] \<and> dropWhile is_digit rest = rest"
  by (cases rest) (auto simp: delimited_def is_digit_def)

lemma digits_span:
  assumes "delimited rest"
  shows "takeWhile is_digit (show_nat n @ rest) = show_nat n"
    and "dropWhile is_digit (show_nat n @ rest) = rest"
  using show_nat_digits [of n] delimited_not_digit [OF assms]
  by (simp_all add: takeWhile_append2 dropWhile_append2 list_all_iff)

lemma parse_number_nat:
  assumes "delimited rest"
  shows "parse_number (show_nat n @ rest) = Some (int n, rest)"
proof -
  have nn: "show_nat n @ rest \<noteq> []" by (simp add: show_nat_nonempty)
  have h: "hd (show_nat n @ rest) \<noteq> CHR ''-''"
    using show_nat_hd_digit [of n] show_nat_nonempty [of n] by (auto simp: is_digit_def)
  from assms have r: "\<not> (rest \<noteq> [] \<and> hd rest \<in> set ''.eE'')"
    by (auto simp: delimited_def)
  show ?thesis
    unfolding parse_number_def Let_def
    using h r show_nat_no_leading_zero [of n]
    by (simp add: nn digits_span [OF assms] show_nat_nonempty parse_show_nat)
qed

lemma parse_number_int:
  assumes "delimited rest"
  shows "parse_number (show_int i @ rest) = Some (i, rest)"
proof (cases "i < 0")
  case False
  then show ?thesis using parse_number_nat [OF assms, of "nat i"] by (simp add: show_int_def)
next
  case True
  from assms have r: "\<not> (rest \<noteq> [] \<and> hd rest \<in> set ''.eE'')"
    by (auto simp: delimited_def)
  from True show ?thesis
    unfolding parse_number_def Let_def show_int_def
    using r show_nat_no_leading_zero [of "nat (- i)"]
    by (simp add: digits_span [OF assms] show_nat_nonempty parse_show_nat)
qed

subsection \<open>Values\<close>

lemma skip_ws_head: "s \<noteq> [] \<Longrightarrow> \<not> json_ws (hd s) \<Longrightarrow> skip_ws (s @ r) = s @ r"
  by (cases s) (simp_all add: skip_ws_def)

lemma show_int_head:
  "\<exists>c t. show_int i = c # t \<and> (c = CHR ''-'' \<or> is_digit c)"
proof (cases "i < 0")
  case True
  then show ?thesis by (simp add: show_int_def)
next
  case False
  obtain c t where "show_nat (nat i) = c # t"
    using show_nat_nonempty [of "nat i"] by (cases "show_nat (nat i)") auto
  with show_nat_hd_digit [of "nat i"] False show ?thesis by (simp add: show_int_def)
qed

lemma number_head:
  assumes "c = CHR ''-'' \<or> is_digit c"
  shows "\<not> json_ws c" "c \<noteq> CHR ''n''" "c \<noteq> CHR ''t''" "c \<noteq> CHR ''f''" "c \<noteq> CHR 0x22"
    "c \<noteq> CHR ''[''" "c \<noteq> CHR ''{''" "c \<noteq> CHR '']''" "c \<noteq> CHR ''}''"
  using assms by (auto simp: is_digit_def json_ws_def)

lemma stringify_head:
  "\<exists>c t. stringify v = c # t \<and> \<not> json_ws c \<and> c \<noteq> CHR '']'' \<and> c \<noteq> CHR ''}''"
proof (cases v)
  case (JNum i)
  from show_int_head [of i] obtain c t where "show_int i = c # t" "c = CHR ''-'' \<or> is_digit c"
    by blast
  with JNum number_head [of c] show ?thesis by simp
qed (simp_all add: json_ws_def quote_def)

lemma update_fresh: "k \<notin> fst ` set al \<Longrightarrow> AList.update k v al = al @ [(k, v)]"
  by (induction al) auto

lemma foldl_update_distinct:
  "distinct (map fst kvs) \<Longrightarrow> fst ` set acc \<inter> fst ` set kvs = {}
   \<Longrightarrow> foldl (\<lambda>acc kv. AList.update (fst kv) (snd kv) acc) acc kvs = acc @ kvs"
proof (induction kvs arbitrary: acc)
  case Nil
  show ?case by simp
next
  case (Cons kv kvs)
  from Cons.prems have fresh: "fst kv \<notin> fst ` set acc" by auto
  from Cons.prems have "fst ` set (acc @ [kv]) \<inter> fst ` set kvs = {}" by auto
  with Cons.IH [of "acc @ [kv]"] Cons.prems(1) show ?case
    by (simp add: update_fresh [OF fresh])
qed

lemma make_object_distinct: "distinct (map fst kvs) \<Longrightarrow> make_object kvs = kvs"
  using foldl_update_distinct [of kvs "[]"] by (simp add: make_object_def)

lemma parse_value_number:
  assumes "delimited rest"
  shows "parse_value (Suc m) (show_int i @ rest) = Some (JNum i, rest)"
proof -
  from show_int_head [of i] obtain c t where ct: "show_int i = c # t" "c = CHR ''-'' \<or> is_digit c"
    by blast
  have "parse_number (c # t @ rest) = Some (i, rest)"
    using parse_number_int [OF assms, of i] ct(1) by simp
  with number_head [OF ct(2)] show ?thesis
    by (simp add: ct(1) skip_ws_def)
qed

lemma parse_stringify_all:
  "wf_json v \<longrightarrow> (\<forall>n rest. length (stringify v) < n \<longrightarrow> delimited rest
      \<longrightarrow> parse_value n (stringify v @ rest) = Some (v, rest))"
  "vs \<noteq> [] \<longrightarrow> (\<forall>v \<in> set vs. wf_json v) \<longrightarrow> (\<forall>n rest. length (stringify_elements vs) < n
      \<longrightarrow> parse_elements n (stringify_elements vs @ rest) = Some (vs, rest))"
  "kvs \<noteq> [] \<longrightarrow> (\<forall>kv \<in> set kvs. wf_json (snd kv)) \<longrightarrow> (\<forall>n rest. length (stringify_members kvs) < n
      \<longrightarrow> parse_members n (stringify_members kvs @ rest) = Some (kvs, rest))"
proof (induction v and vs and kvs rule: stringify_stringify_elements_stringify_members.induct)
  case 1
  show ?case
  proof (intro impI allI)
    fix n :: nat and rest
    assume "length (stringify JNull) < n"
    then obtain m where "n = Suc m" by (cases n) auto
    then show "parse_value n (stringify JNull @ rest) = Some (JNull, rest)"
      by (simp add: skip_ws_def json_ws_def)
  qed
next
  case (2 b)
  show ?case
  proof (intro impI allI)
    fix n :: nat and rest
    assume "length (stringify (JBool b)) < n"
    then obtain m where "n = Suc m" by (cases n) auto
    then show "parse_value n (stringify (JBool b) @ rest) = Some (JBool b, rest)"
      by (simp add: skip_ws_def json_ws_def)
  qed
next
  case (3 i)
  show ?case
  proof (intro impI allI)
    fix n :: nat and rest
    assume "length (stringify (JNum i)) < n" and d: "delimited rest"
    then obtain m where "n = Suc m" by (cases n) auto
    then show "parse_value n (stringify (JNum i) @ rest) = Some (JNum i, rest)"
      using parse_value_number [OF d] by simp
  qed
next
  case (4 s)
  show ?case
  proof (intro impI allI)
    fix n :: nat and rest
    assume "length (stringify (JString s)) < n"
    then obtain m where "n = Suc m" by (cases n) auto
    then show "parse_value n (stringify (JString s) @ rest) = Some (JString s, rest)"
      by (simp add: skip_ws_def json_ws_def quote_def parse_quote_body)
  qed
next
  case (5 vs)
  show ?case
  proof (intro impI allI)
    fix n :: nat and rest
    assume wf: "wf_json (JArray vs)" and len: "length (stringify (JArray vs)) < n"
    then obtain m where n: "n = Suc m" by (cases n) auto
    show "parse_value n (stringify (JArray vs) @ rest) = Some (JArray vs, rest)"
    proof (cases vs)
      case Nil
      with n show ?thesis by (simp add: skip_ws_def json_ws_def)
    next
      case (Cons v vs')
      from stringify_head [of v] obtain c t where ct: "stringify v = c # t" "\<not> json_ws c" "c \<noteq> CHR '']''"
        by blast
      from Cons ct obtain t' where r: "stringify_elements vs @ rest = c # t'" by simp
      from len n have "length (stringify_elements vs) < m" by simp
      with 5 wf Cons have "parse_elements m (stringify_elements vs @ rest) = Some (vs, rest)"
        by simp
      with r ct n show ?thesis
        by (simp add: skip_ws_def json_ws_def)
    qed
  qed
next
  case (6 kvs)
  show ?case
  proof (intro impI allI)
    fix n :: nat and rest
    assume wf: "wf_json (JObject kvs)" and len: "length (stringify (JObject kvs)) < n"
    then obtain m where n: "n = Suc m" by (cases n) auto
    from wf have mk: "make_object kvs = kvs" by (simp add: make_object_distinct)
    show "parse_value n (stringify (JObject kvs) @ rest) = Some (JObject kvs, rest)"
    proof (cases kvs)
      case Nil
      with n show ?thesis by (simp add: skip_ws_def json_ws_def)
    next
      case (Cons kv kvs')
      obtain t' where r: "stringify_members kvs @ rest = CHR 0x22 # t'"
        using Cons by (cases kv) (simp add: quote_def)
      from len n have "length (stringify_members kvs) < m" by simp
      with 6 wf Cons have "parse_members m (stringify_members kvs @ rest) = Some (kvs, rest)"
        by simp
      with r n mk show ?thesis
        by (simp add: skip_ws_def json_ws_def)
    qed
  qed
next
  case 7
  show ?case by simp
next
  case (8 v vs)
  show ?case
  proof (intro impI allI)
    fix n :: nat and rest
    assume wf: "\<forall>x \<in> set (v # vs). wf_json x" and len: "length (stringify_elements (v # vs)) < n"
    then obtain m where n: "n = Suc m" by (cases n) auto
    let ?tail = "(if vs = [] then '']'' else CHR '','' # stringify_elements vs) @ rest"
    have d: "delimited ?tail" by simp
    from len n have lv: "length (stringify v) < m" by (simp split: if_splits)
    from 8(1) wf lv d have pv: "parse_value m (stringify v @ ?tail) = Some (v, ?tail)"
      by simp
    show "parse_elements n (stringify_elements (v # vs) @ rest) = Some (v # vs, rest)"
    proof (cases "vs = []")
      case True
      with pv n show ?thesis by (simp add: skip_ws_def json_ws_def)
    next
      case False
      from len n False have "length (stringify_elements vs) < m" by simp
      with 8(2) [OF False] wf False
      have "parse_elements m (stringify_elements vs @ rest) = Some (vs, rest)" by simp
      with pv n False show ?thesis by (simp add: skip_ws_def json_ws_def)
    qed
  qed
next
  case 9
  show ?case by simp
next
  case (10 k v kvs)
  show ?case
  proof (intro impI allI)
    fix n :: nat and rest
    assume wf: "\<forall>kv \<in> set ((k, v) # kvs). wf_json (snd kv)"
      and len: "length (stringify_members ((k, v) # kvs)) < n"
    then obtain m where n: "n = Suc m" by (cases n) auto
    let ?tail = "(if kvs = [] then ''}'' else CHR '','' # stringify_members kvs) @ rest"
    have d: "delimited ?tail" by simp
    from len n have lv: "length (stringify v) < m" by (simp split: if_splits)
    from 10(1) wf lv d have pv: "parse_value m (stringify v @ ?tail) = Some (v, ?tail)"
      by simp
    have key: "parse_string_body (quote_body k @ CHR '':'' # stringify v @ ?tail)
                 = Some (k, CHR '':'' # stringify v @ ?tail)"
      by (rule parse_quote_body)
    show "parse_members n (stringify_members ((k, v) # kvs) @ rest) = Some ((k, v) # kvs, rest)"
    proof (cases "kvs = []")
      case True
      with pv n key show ?thesis by (simp add: skip_ws_def json_ws_def quote_def)
    next
      case False
      from len n False have "length (stringify_members kvs) < m" by simp
      with 10(2) [OF False] wf False
      have "parse_members m (stringify_members kvs @ rest) = Some (kvs, rest)" by simp
      with pv n key False show ?thesis by (simp add: skip_ws_def json_ws_def quote_def)
    qed
  qed
qed

lemma JSON_parse_stringify:
  assumes "wf_json v"
  shows "JSON_parse (JSON_stringify v) = Some v"
proof -
  have "length (stringify v) < 2 * length (stringify v) + 2" by simp
  with parse_stringify_all(1) [of v] assms delimited_simps(1)
  have "parse_value (2 * length (stringify v) + 2) (stringify v @ []) = Some (v, [])"
    by blast
  then have "parse_value (2 * length (stringify v) + 2) (stringify v) = Some (v, [])"
    by (simp del: parse_value.simps)
  then show ?thesis
    unfolding JSON_parse_def JSON_stringify_def by (simp add: skip_ws_def del: parse_value.simps)
qed

lemma clone_wf: "wf_json v \<Longrightarrow> clone v = Some v"
  by (simp add: clone_def JSON_parse_stringify)

section \<open>Persistence\<close>

lemma wf_session_json: "wf_json (session_json s)"
  by (auto simp: session_json_def)

lemma wf_sessions_json: "wf_json (sessions_json ss)"
  by (simp add: sessions_json_def wf_session_json)

lemma wf_attachment_json: "wf_json (attachment_json a)"
  by (auto simp: attachment_json_def optional_def split: option.splits)

lemma wf_card_json: "wf_json (card_json c)"
  by (auto simp: card_json_def)

lemma wf_message_json: "wf_message m \<Longrightarrow> wf_json (message_json m)"
  by (auto simp: message_json_def wf_message_def optional_def role_json_def type_json_def
      status_json_def wf_attachment_json wf_card_json split: option.splits)

lemma wf_messages_json: "wf_messages ms \<Longrightarrow> wf_json (messages_json ms)"
  by (auto simp: messages_json_def wf_messages_def wf_message_json comp_def)

lemma makePersistedState_wf:
  "wf_messages ms \<Longrightarrow> makePersistedState ss ms = Some (snapshot_json ss ms)"
  by (simp add: makePersistedState_def snapshot_json_def clone_wf wf_sessions_json wf_messages_json)

lemma wf_defaultState: "wf_json defaultState"
  by (simp add: defaultState_def)

lemma stringify_nonempty: "JSON_stringify v \<noteq> []"
  using stringify_head [of v] by (auto simp: JSON_stringify_def)

lemma load_save:
  assumes "wf_json data"
  shows "loadFromStorage True fallback (saveToStorage True data item) = Defined data"
proof -
  let ?payload = "JObject [(''version'', JNum 1), (''data'', data)]"
  from assms have "wf_json ?payload" by simp
  then have "JSON_parse (JSON_stringify ?payload) = Some ?payload"
    by (rule JSON_parse_stringify)
  then show ?thesis
    by (simp add: loadFromStorage_def saveToStorage_def stringify_nonempty get_data_def)
qed

text \<open>
  Claim C5.  For every sessions list and every message map (a record: no key twice,
  in the map and in the metadata of its messages), \<open>makePersistedState\<close> yields the
  snapshot \<open>{sessions, messages}\<close>, and reading the initial state from the storage
  item that persisting this snapshot wrote gives back the snapshot itself, whatever
  the storage held before.
\<close>

theorem load_persist_roundtrip:
  assumes "wf_messages ms"
  shows "makePersistedState ss ms = Some (snapshot_json ss ms)
       \<and> readInitialChatState True (persistChatState True (snapshot_json ss ms) item)
           = Some (Defined (snapshot_json ss ms))"
proof -
  from assms have "wf_json (snapshot_json ss ms)"
    by (simp add: snapshot_json_def wf_sessions_json wf_messages_json)
  then have "loadFromStorage True defaultState (saveToStorage True (snapshot_json ss ms) item)
               = Defined (snapshot_json ss ms)"
    by (rule load_save)
  with assms show ?thesis
    by (simp add: makePersistedState_wf readInitialChatState_def persistChatState_def
        clone_wf wf_defaultState)
qed

lemma wf_example_messages: "wf_messages example_messages"
  by (simp add: wf_messages_def example_messages_def wf_message_def text_message_def
      file_message_def card_message_def)

theorem load_persist_roundtrip_witness:
  "wf_messages example_messages
   \<and> makePersistedState example_sessions example_messages
       = Some (snapshot_json example_sessions example_messages)
   \<and> readInitialChatState True
        (persistChatState True (snapshot_json example_sessions example_messages) None)
       = Some (Defined (snapshot_json example_sessions example_messages))"
  using load_persist_roundtrip [OF wf_example_messages, of example_sessions None]
    wf_example_messages
  by simp

text \<open>What \<open>persist\<close> writes is what the next start of the application reads.\<close>

lemma persist_then_load:
  assumes "has_window st" "wf_messages (messagesBySession st)"
  shows "readInitialChatState (has_window st) (localStorage (persist st))
           = Some (Defined (snapshot_json (sessions st) (messagesBySession st)))"
  using assms load_persist_roundtrip [OF assms(2), of "sessions st" "localStorage st"]
  by (simp add: persist_def)






section \<open>The stores: what each operation leaves unchanged\<close>

lemma persist_fields [simp]:
  "sessions (persist st) = sessions st"
  "activeSessionId (persist st) = activeSessionId st"
  "messagesBySession (persist st) = messagesBySession st"
  "streamingMessageId (persist st) = streamingMessageId st"
  "isSending (persist st) = isSending st"
  "abortController (persist st) = abortController st"
  "controllers (persist st) = controllers st"
  "has_window (persist st) = has_window st"
  by (simp_all add: persist_def split: option.splits)

lemma trim_a: "trim ''a'' = ''a''"
  by code_simp

lemma trim_b: "trim ''b'' = ''b''"
  by code_simp

lemmas engine_defs =
  spawn_def sendMessage_start_def sendFiles_start_def regenerate_start_def request_completion_def
  ensureSession_def startNewSession_def createSession_def truthy_def
  appendMessage_def getMessages_def set_messages_def updateMessage_def setMessageStatus_def
  appendMessageId_def touchSession_def replaceMessageIds_def setActiveSession_def
  buildContextMessages_def abort_current_def new_controller_def text_message_def
  card_message_def file_message_def stream_continue_def streamText_next_def signal_aborted_def
  completed_def failed_def fail_task_def append_card_def

lemmas view_defs = message_view_def outcomes_def messages_of_def message_order_def
  messageIds_of_def response_with_def example_card_def

section \<open>Overlapping operations\<close>

text \<open>
  Claim C2 fails on the code.  After two calls of \<open>sendMessage\<close>, the second one made
  while the first waits for its completion, both placeholders have status
  \<open>streaming\<close>: aborting the controller of the first call does not touch its
  placeholder.  Likewise, regenerating an earlier reply while a send waits for its
  completion leaves the regenerated reply and the placeholder of the send both with
  status \<open>streaming\<close>.
\<close>

theorem two_sends_both_streaming:
  "map_option (\<lambda>s. (streaming_count (fst s), message_view ''s1'' s))
     (run two_sends (initial_state, []))
   = Some (2, [(''u1'', Sent, ''a''), (''p1'', Streaming, []),
               (''u2'', Sent, ''b''), (''p2'', Streaming, [])])
   \<and> map_option (\<lambda>s. (streaming_count (fst s), message_view ''s1'' s))
     (run regenerate_during_send (initial_state, []))
   = Some (2, [(''u1'', Sent, ''a''), (''a1'', Streaming, []),
               (''u2'', Sent, ''b''), (''p2'', Streaming, [])])"
  by (simp add: two_sends_def regenerate_during_send_def initial_state_def engine_defs view_defs
      streaming_count_def trim_a trim_b Let_def)

text \<open>
  Claim C1 fails on the code.  When the second send starts while the first waits for
  its completion, the stream of the first send reads the signal of the controller the
  second send installed, so nothing cancels it: both placeholders end with status
  \<open>sent\<close> and both calls are fulfilled.  When the second send starts while the first
  one streams, the first stream stops at its next check, \<open>streamIntoMessage\<close> swallows
  the AbortError, and the first placeholder ends with status \<open>sent\<close> and a truncated
  content; the call is fulfilled.  In neither case does the first placeholder end with
  status \<open>error\<close>.
\<close>

theorem overlapping_send_not_cancelled:
  "map_option (\<lambda>s. (message_view ''s1'' s, outcomes s))
     (run overlapping_sends (initial_state, []))
   = Some ([(''u1'', Sent, ''a''), (''p1'', Sent, ''Hi there''),
            (''u2'', Sent, ''b''), (''p2'', Sent, ''Yes'')],
           [Settled None, Settled None])
   \<and> map_option (\<lambda>s. (take 2 (message_view ''s1'' s), hd (outcomes s)))
     (run send_during_stream (initial_state, []))
   = Some ([(''u1'', Sent, ''a''), (''p1'', Sent, ''Hi there'')], Settled None)"
  by (simp add: overlapping_sends_def two_sends_def send_during_stream_def initial_state_def
      engine_defs view_defs trim_a trim_b Let_def)

text \<open>
  Claim C3 fails on the code.  The card of a regeneration is appended with
  \<open>appendMessage\<close>, at the end of the session: regenerating the first of two replies
  puts the card after the second reply, in the message list and in \<open>messageIds\<close>, not
  after its target.
\<close>

theorem regenerate_card_appended_at_end:
  "map_option (message_order ''s1'') (run regenerate_first_reply (initial_state, []))
   = Some ([(''u1'', Text), (''a1'', Text), (''u2'', Text), (''a2'', Text), (''k1'', Card)],
           Some [''u1'', ''a1'', ''u2'', ''a2'', ''k1''])"
  by (simp add: regenerate_first_reply_def initial_state_def engine_defs view_defs
      trim_a trim_b Let_def)

section \<open>Effects of the store operations on the message lists\<close>

lemma messages_of_field_updates [simp]:
  "messages_of i (st\<lparr> sessions := a \<rparr>) = messages_of i st"
  "messages_of i (st\<lparr> activeSessionId := b \<rparr>) = messages_of i st"
  "messages_of i (st\<lparr> streamingMessageId := c \<rparr>) = messages_of i st"
  "messages_of i (st\<lparr> isSending := d \<rparr>) = messages_of i st"
  "messages_of i (st\<lparr> abortController := e \<rparr>) = messages_of i st"
  "messages_of i (st\<lparr> controllers := f \<rparr>) = messages_of i st"
  "messages_of i (st\<lparr> localStorage := g \<rparr>) = messages_of i st"
  by (simp_all add: messages_of_def)

lemma messages_of_persist [simp]: "messages_of i (persist st) = messages_of i st"
  by (simp add: messages_of_def)

lemma messages_of_set_messages [simp]:
  "messages_of i (set_messages sessionId l st) = (if i = sessionId then l else messages_of i st)"
  by (simp add: messages_of_def set_messages_def update_conv')

lemma set_messages_fields [simp]:
  "sessions (set_messages sessionId l st) = sessions st"
  "activeSessionId (set_messages sessionId l st) = activeSessionId st"
  "streamingMessageId (set_messages sessionId l st) = streamingMessageId st"
  "isSending (set_messages sessionId l st) = isSending st"
  "abortController (set_messages sessionId l st) = abortController st"
  "controllers (set_messages sessionId l st) = controllers st"
  by (simp_all add: set_messages_def)

lemma getMessages_fst [simp]: "fst (getMessages sessionId st) = messages_of sessionId st"
  by (simp add: getMessages_def messages_of_def split: option.splits)

lemma getMessages_snd_messages [simp]:
  "messages_of i (snd (getMessages sessionId st)) = messages_of i st"
proof (cases "map_of (messagesBySession st) sessionId")
  case None
  then have "messages_of sessionId st = []" by (simp add: messages_of_def)
  with None show ?thesis by (simp add: getMessages_def)
next
  case (Some l)
  then show ?thesis by (simp add: getMessages_def)
qed

lemma getMessages_snd [simp]:
  "sessions (snd (getMessages sessionId st)) = sessions st"
  "activeSessionId (snd (getMessages sessionId st)) = activeSessionId st"
  "streamingMessageId (snd (getMessages sessionId st)) = streamingMessageId st"
  "isSending (snd (getMessages sessionId st)) = isSending st"
  "abortController (snd (getMessages sessionId st)) = abortController st"
  "controllers (snd (getMessages sessionId st)) = controllers st"
  by (simp_all add: getMessages_def split: option.splits)

lemma registry_ops_messages [simp]:
  "messages_of i (appendMessageId sessionId messageId now st) = messages_of i st"
  "messages_of i (touchSession sessionId now st) = messages_of i st"
  "messages_of i (replaceMessageIds sessionId ids now st) = messages_of i st"
  "messages_of i (setActiveSession sessionId st) = messages_of i st"
  by (simp_all add: appendMessageId_def touchSession_def replaceMessageIds_def setActiveSession_def)

lemma registry_ops_fields [simp]:
  "activeSessionId (appendMessageId sessionId messageId now st) = activeSessionId st"
  "abortController (appendMessageId sessionId messageId now st) = abortController st"
  "controllers (appendMessageId sessionId messageId now st) = controllers st"
  "activeSessionId (touchSession sessionId now st) = activeSessionId st"
  "abortController (touchSession sessionId now st) = abortController st"
  "controllers (touchSession sessionId now st) = controllers st"
  "activeSessionId (replaceMessageIds sessionId ids now st) = activeSessionId st"
  "abortController (replaceMessageIds sessionId ids now st) = abortController st"
  "controllers (replaceMessageIds sessionId ids now st) = controllers st"
  "activeSessionId (setActiveSession sessionId st) = Some sessionId"
  "abortController (setActiveSession sessionId st) = abortController st"
  "controllers (setActiveSession sessionId st) = controllers st"
  by (simp_all add: appendMessageId_def touchSession_def replaceMessageIds_def setActiveSession_def)

lemma appendMessage_messages [simp]:
  "messages_of i (appendMessage sessionId message now st)
     = (if i = sessionId then messages_of sessionId st @ [message] else messages_of i st)"
  by (simp add: appendMessage_def split_def)

lemma appendMessage_fields [simp]:
  "activeSessionId (appendMessage sessionId message now st) = activeSessionId st"
  "abortController (appendMessage sessionId message now st) = abortController st"
  "controllers (appendMessage sessionId message now st) = controllers st"
  by (simp_all add: appendMessage_def split_def)

lemma updateMessage_messages [simp]:
  "messages_of i (updateMessage sessionId messageId updater st)
     = (if i = sessionId
        then update_first (\<lambda>m. m_id m = messageId) updater (messages_of sessionId st)
        else messages_of i st)"
  by (simp add: updateMessage_def split_def)

lemma updateMessage_fields [simp]:
  "sessions (updateMessage sessionId messageId updater st) = sessions st"
  "activeSessionId (updateMessage sessionId messageId updater st) = activeSessionId st"
  "abortController (updateMessage sessionId messageId updater st) = abortController st"
  "controllers (updateMessage sessionId messageId updater st) = controllers st"
  by (simp_all add: updateMessage_def split_def)

lemma setMessageStatus_messages [simp]:
  "messages_of i (setMessageStatus sessionId messageId status st)
     = (if i = sessionId
        then update_first (\<lambda>m. m_id m = messageId) (\<lambda>m. m\<lparr> m_status := status \<rparr>)
               (messages_of sessionId st)
        else messages_of i st)"
  by (simp add: setMessageStatus_def)

lemma setMessageStatus_fields [simp]:
  "sessions (setMessageStatus sessionId messageId status st) = sessions st"
  "activeSessionId (setMessageStatus sessionId messageId status st) = activeSessionId st"
  "abortController (setMessageStatus sessionId messageId status st) = abortController st"
  "controllers (setMessageStatus sessionId messageId status st) = controllers st"
  by (simp_all add: setMessageStatus_def)

lemma controller_ops [simp]:
  "messages_of i (abort_current st) = messages_of i st"
  "activeSessionId (abort_current st) = activeSessionId st"
  "abortController (abort_current st) = abortController st"
  "length (controllers (abort_current st)) = length (controllers st)"
  "messages_of i (new_controller st) = messages_of i st"
  "activeSessionId (new_controller st) = activeSessionId st"
  "abortController (new_controller st) = Some (length (controllers st))"
  "controllers (new_controller st) = controllers st @ [False]"
  by (simp_all add: abort_current_def new_controller_def split: option.splits)

lemma buildContextMessages_snd [simp]:
  "messages_of i (snd (buildContextMessages sessionId st)) = messages_of i st"
  "activeSessionId (snd (buildContextMessages sessionId st)) = Some sessionId"
  "abortController (snd (buildContextMessages sessionId st)) = abortController st"
  "controllers (snd (buildContextMessages sessionId st)) = controllers st"
  by (simp_all add: buildContextMessages_def split_def Let_def)

lemma append_card_messages [simp]:
  "messages_of i (append_card sessionId crd new_id now st)
     = (if i = sessionId
        then messages_of sessionId st
             @ (case crd of None \<Rightarrow> [] | Some c \<Rightarrow> [card_message new_id sessionId now c])
        else messages_of i st)"
  by (simp add: append_card_def split: option.splits)

lemma request_completion_result:
  "request_completion kind sessionId placeholder_id now extra st = (t, st1) \<Longrightarrow>
     t_kind t = kind \<and> t_sessionId t = sessionId
     \<and> (\<exists>payload. t_phase t = AwaitCompletion placeholder_id payload)
     \<and> activeSessionId st1 = Some sessionId
     \<and> abortController st1 = Some (length (controllers st))
     \<and> length (controllers st1) = Suc (length (controllers st))
     \<and> (\<forall>i. messages_of i st1
            = (if i = sessionId
               then messages_of sessionId st
                    @ [text_message placeholder_id sessionId Assistant [] now Streaming]
               else messages_of i st))"
  by (auto simp: request_completion_def split_def Let_def)

section \<open>Sending selects the session\<close>

lemma ensureSession_result:
  "ensureSession new_id now st = (sessionId, st1) \<Longrightarrow>
     sessionId = (if truthy (activeSessionId st) then the (activeSessionId st) else new_id)
     \<and> (\<forall>i. messages_of i st1
            = (if truthy (activeSessionId st) \<or> i \<noteq> new_id then messages_of i st else []))
     \<and> abortController st1 = abortController st
     \<and> controllers st1 = controllers st"
  by (auto simp: ensureSession_def startNewSession_def createSession_def Let_def)

lemma sendMessage_start_result:
  assumes "trim content \<noteq> []"
  shows "\<exists>t st1 l. sendMessage_start content session_id user_id placeholder_id now st = (Some t, st1)
           \<and> t_kind t = KSend
           \<and> t_sessionId t = (if truthy (activeSessionId st) then the (activeSessionId st) else session_id)
           \<and> (\<exists>payload. t_phase t = AwaitCompletion placeholder_id payload)
           \<and> activeSessionId st1 = Some (t_sessionId t)
           \<and> l = (if truthy (activeSessionId st) then messages_of (t_sessionId t) st else [])
           \<and> messages_of (t_sessionId t) st1
               = l @ [text_message user_id (t_sessionId t) User (trim content) now Sent,
                      text_message placeholder_id (t_sessionId t) Assistant [] now Streaming]
           \<and> abortController st1 = Some (length (controllers st))
           \<and> length (controllers st1) = Suc (length (controllers st))"
proof -
  obtain sessionId st0 where e: "ensureSession session_id now st = (sessionId, st0)"
    by (cases "ensureSession session_id now st")
  let ?u = "text_message user_id sessionId User (trim content) now Sent"
  obtain t st1 where r: "request_completion KSend sessionId placeholder_id now []
                           (appendMessage sessionId ?u now st0) = (t, st1)"
    by (cases "request_completion KSend sessionId placeholder_id now []
                 (appendMessage sessionId ?u now st0)")
  from assms e r have s: "sendMessage_start content session_id user_id placeholder_id now st = (Some t, st1)"
    by (simp add: sendMessage_start_def Let_def)
  from request_completion_result [OF r] ensureSession_result [OF e] s show ?thesis
    by auto
qed

lemma saves_all:
  assumes "t_phase t = SavingFile files f rest msgId" "length evs = Suc (length rest)"
  shows "\<exists>t2 st2 l m p. saves evs (t, st) = Some (t2, st2)
           \<and> t_sessionId t2 = t_sessionId t
           \<and> (\<exists>new_id payload. t_phase t2 = AwaitCompletion new_id payload \<and> m_id p = new_id)
           \<and> activeSessionId st2 = Some (t_sessionId t)
           \<and> messages_of (t_sessionId t) st2 = l @ [m, p]
           \<and> m_type m = File \<and> m_content m = f_name (last (f # rest))
           \<and> m_role p = Assistant \<and> m_status p = Streaming"
  using assms
proof (induction rest arbitrary: t st f msgId evs)
  case Nil
  then obtain ok new_id now env where evs: "evs = [(ok, new_id, now, env)]"
    by (cases evs) auto
  let ?st1 = "appendMessage (t_sessionId t) (file_message msgId (t_sessionId t) now f) now (env st)"
  obtain t2 st2 where r: "request_completion KFiles (t_sessionId t) new_id now
          [\<lparr> cm_role = User, cm_content = summaryForApi files \<rparr>] ?st1 = (t2, st2)"
    by (cases "request_completion KFiles (t_sessionId t) new_id now
          [\<lparr> cm_role = User, cm_content = summaryForApi files \<rparr>] ?st1")
  from Nil.prems(1) r evs have s: "saves evs (t, st) = Some (t2, st2)" by simp
  from request_completion_result [OF r] s show ?case
    by (auto simp: file_message_def text_message_def)
next
  case (Cons f' rest')
  then obtain ok new_id now env evs' where evs: "evs = (ok, new_id, now, env) # evs'"
    "length evs' = Suc (length rest')"
    by (cases evs) auto
  let ?t1 = "t\<lparr> t_phase := SavingFile files f' rest' new_id \<rparr>"
  let ?st1 = "appendMessage (t_sessionId t) (file_message msgId (t_sessionId t) now f) now (env st)"
  have p: "t_phase ?t1 = SavingFile files f' rest' new_id" by simp
  from Cons.prems(1) evs have s: "saves evs (t, st) = saves evs' (?t1, ?st1)" by simp
  from Cons.IH [OF p evs(2), of ?st1] s show ?case by auto
qed

text \<open>
  Claim C10.  A call of \<open>sendMessage\<close> with a text that is not white space leaves the
  active-session pointer on the session that received the user message and the
  placeholder.  A call of \<open>sendFiles\<close> with a batch that is not empty does the same
  once its last file is saved, whatever happened to the stores, the pointer included,
  while it waited for the saves.  The writer is \<open>buildContextMessages\<close>, which returns
  the stores with the pointer set to its argument.
\<close>

theorem send_sets_active_session:
  "(trim content \<noteq> [] \<longrightarrow>
      (\<exists>t st1 l. sendMessage_start content session_id user_id placeholder_id now st = (Some t, st1)
         \<and> activeSessionId st1 = Some (t_sessionId t)
         \<and> messages_of (t_sessionId t) st1
             = l @ [text_message user_id (t_sessionId t) User (trim content) now Sent,
                    text_message placeholder_id (t_sessionId t) Assistant [] now Streaming]))
   \<and> (files \<noteq> [] \<and> length evs = length files \<longrightarrow>
      (\<exists>t st1 t2 st2 l m p. sendFiles_start files session_id msgId now st = (Some t, st1)
         \<and> saves evs (t, st1) = Some (t2, st2)
         \<and> t_sessionId t2 = t_sessionId t
         \<and> activeSessionId st2 = Some (t_sessionId t)
         \<and> messages_of (t_sessionId t) st2 = l @ [m, p]
         \<and> m_type m = File \<and> m_content m = f_name (last files)
         \<and> m_role p = Assistant \<and> m_status p = Streaming))
   \<and> activeSessionId (snd (buildContextMessages sessionId st)) = Some sessionId"
proof -
  have a: "trim content \<noteq> [] \<longrightarrow>
      (\<exists>t st1 l. sendMessage_start content session_id user_id placeholder_id now st = (Some t, st1)
         \<and> activeSessionId st1 = Some (t_sessionId t)
         \<and> messages_of (t_sessionId t) st1
             = l @ [text_message user_id (t_sessionId t) User (trim content) now Sent,
                    text_message placeholder_id (t_sessionId t) Assistant [] now Streaming])"
    using sendMessage_start_result [of content session_id user_id placeholder_id now st]
    by blast
  have b: "\<exists>t st1 t2 st2 l m p. sendFiles_start files session_id msgId now st = (Some t, st1)
         \<and> saves evs (t, st1) = Some (t2, st2)
         \<and> t_sessionId t2 = t_sessionId t
         \<and> activeSessionId st2 = Some (t_sessionId t)
         \<and> messages_of (t_sessionId t) st2 = l @ [m, p]
         \<and> m_type m = File \<and> m_content m = f_name (last files)
         \<and> m_role p = Assistant \<and> m_status p = Streaming"
    if f: "files \<noteq> []" and n: "length evs = length files"
  proof -
    from f obtain f0 rest where files: "files = f0 # rest" by (cases files) auto
    obtain sessionId st0 where e: "ensureSession session_id now st = (sessionId, st0)"
      by (cases "ensureSession session_id now st")
    let ?t = "\<lparr> t_kind = KFiles, t_sessionId = sessionId,
                t_phase = SavingFile files f0 rest msgId \<rparr>"
    let ?st1 = "st0\<lparr> isSending := True \<rparr>"
    from files e have s: "sendFiles_start files session_id msgId now st = (Some ?t, ?st1)"
      by (simp add: sendFiles_start_def)
    have p: "t_phase ?t = SavingFile files f0 rest msgId" by simp
    from n files have l: "length evs = Suc (length rest)" by simp
    from saves_all [OF p l, of ?st1] s files show ?thesis by auto
  qed
  from a b show ?thesis by simp
qed

lemma trim_Hello: "trim ''Hello'' = ''Hello''"
  by code_simp

text \<open>
  A first send into empty stores creates and selects session \<open>s1\<close>; the two files go
  to \<open>s1\<close> and the pointer comes back to it although another session was selected
  during both saves.
\<close>

theorem send_sets_active_session_witness:
  "trim ''Hello'' \<noteq> []
   \<and> activeSessionId (snd (sendMessage_start ''Hello'' ''s1'' ''u1'' ''p1'' 1 initial_state)) = Some ''s1''
   \<and> example_files \<noteq> [] \<and> length example_saves = length example_files
   \<and> map_option (\<lambda>r. activeSessionId (snd r))
        (saves example_saves
           (the (fst (sendFiles_start example_files ''s1'' ''f1'' 1 initial_state)),
            snd (sendFiles_start example_files ''s1'' ''f1'' 1 initial_state)))
       = Some (Some ''s1'')
   \<and> activeSessionId (snd (buildContextMessages ''s1'' (setActiveSession ''other'' initial_state)))
       = Some ''s1''"
proof -
  have h1: "trim ''Hello'' \<noteq> []" by (simp add: trim_Hello)
  have h2: "example_files \<noteq> [] \<and> length example_saves = length example_files"
    by (simp add: example_files_def example_saves_def)
  note inst = send_sets_active_session [of "''Hello''" "''s1''" "''u1''" "''p1''" 1 initial_state
      example_files example_saves "''f1''" "''s1''"]
  from inst h1 obtain t st1 where
    "sendMessage_start ''Hello'' ''s1'' ''u1'' ''p1'' 1 initial_state = (Some t, st1)"
    "activeSessionId st1 = Some (t_sessionId t)"
    by blast
  moreover from this(1) have "t_sessionId t = ''s1''"
    using sendMessage_start_result [OF h1, of "''s1''" "''u1''" "''p1''" 1 initial_state]
    by (auto simp: initial_state_def truthy_def)
  ultimately have a: "activeSessionId (snd (sendMessage_start ''Hello'' ''s1'' ''u1'' ''p1'' 1 initial_state)) = Some ''s1''"
    by simp
  from inst h2 obtain t st1 t2 st2 where
    f: "sendFiles_start example_files ''s1'' ''f1'' 1 initial_state = (Some t, st1)"
      "saves example_saves (t, st1) = Some (t2, st2)"
      "activeSessionId st2 = Some (t_sessionId t)"
    by blast
  from f(1) have "t_sessionId t = ''s1''"
    by (auto simp: sendFiles_start_def example_files_def ensureSession_def startNewSession_def
        createSession_def initial_state_def truthy_def Let_def)
  with f have b: "map_option (\<lambda>r. activeSessionId (snd r))
        (saves example_saves
           (the (fst (sendFiles_start example_files ''s1'' ''f1'' 1 initial_state)),
            snd (sendFiles_start example_files ''s1'' ''f1'' 1 initial_state)))
       = Some (Some ''s1'')"
    by simp
  from inst have c: "activeSessionId (snd (buildContextMessages ''s1'' (setActiveSession ''other'' initial_state)))
       = Some ''s1''"
    by simp
  from h1 h2 a b c show ?thesis by blast
qed

section \<open>Regeneration\<close>

lemma findIndex_takeWhile:
  "findIndex P xs = Some i \<Longrightarrow>
     i = length (takeWhile (\<lambda>x. \<not> P x) xs) \<and> i < length xs \<and> take i xs = takeWhile (\<lambda>x. \<not> P x) xs"
proof (induction xs arbitrary: i)
  case Nil
  then show ?case by simp
next
  case (Cons x xs)
  show ?case
  proof (cases "P x")
    case True
    with Cons.prems show ?thesis by simp
  next
    case False
    with Cons.prems obtain j where j: "findIndex P xs = Some j" "i = Suc j" by auto
    from Cons.IH [OF j(1)] j(2) False show ?thesis by auto
  qed
qed

lemma find_in_set: "find P xs = Some x \<Longrightarrow> x \<in> set xs"
  by (induction xs) (auto split: if_splits)

lemma length_update_first [simp]: "length (update_first P f xs) = length xs"
  by (induction xs) auto

lemma take_update_first:
  "\<forall>x \<in> set (take n xs). \<not> P x \<Longrightarrow> take n (update_first P f xs) = take n xs"
proof (induction xs arbitrary: n)
  case Nil
  show ?case by simp
next
  case (Cons x xs)
  then show ?case by (cases n) auto
qed

lemma framed_update:
  "framed n messageId l \<Longrightarrow> take n (update_first (\<lambda>m. m_id m = messageId) f l) = take n l"
  by (simp add: framed_def take_update_first)

lemma framed_append: "framed n messageId l \<Longrightarrow> take n (l @ l') = take n l"
  by (simp add: framed_def)

lemma completed_frame:
  "framed n messageId (messages_of sessionId st) \<Longrightarrow>
     take n (messages_of sessionId (completed kind sessionId messageId crd new_id now st))
       = take n (messages_of sessionId st)"
  by (cases kind) (simp_all add: completed_def Let_def framed_def take_update_first)

lemma failed_frame:
  "framed n messageId (messages_of sessionId st) \<Longrightarrow>
     take n (messages_of sessionId (snd (failed kind sessionId messageId e now st)))
       = take n (messages_of sessionId st)"
  by (cases kind) (simp_all add: failed_def Let_def framed_def take_update_first)

lemma stream_continue_frame:
  assumes "stream_continue t messageId content cursor signal crd new_id now st = (t1, st1)"
    and "framed n messageId (messages_of (t_sessionId t) st)"
  shows "take n (messages_of (t_sessionId t) st1) = take n (messages_of (t_sessionId t) st)
       \<and> t_sessionId t1 = t_sessionId t \<and> targets messageId (t_phase t1)"
  using assms
  by (auto simp: stream_continue_def completed_frame split: stream_step.splits)

lemma fail_task_frame:
  assumes "fail_task t messageId e now st = (t1, st1)"
    and "framed n messageId (messages_of (t_sessionId t) st)"
  shows "take n (messages_of (t_sessionId t) st1) = take n (messages_of (t_sessionId t) st)
       \<and> t_sessionId t1 = t_sessionId t \<and> targets messageId (t_phase t1)"
proof -
  from assms(1) have "st1 = snd (failed (t_kind t) (t_sessionId t) messageId e now st)"
    and "t1 = t\<lparr> t_phase := Settled (fst (failed (t_kind t) (t_sessionId t) messageId e now st)) \<rparr>"
    by (auto simp: fail_task_def split_def Let_def)
  with failed_frame [OF assms(2)] show ?thesis by simp
qed

lemma framed_updated:
  "framed n messageId l \<Longrightarrow> framed n messageId (update_first (\<lambda>m. m_id m = messageId) f l)"
  by (simp add: framed_def take_update_first)

lemma resume_frame:
  assumes "resume ev t st = Some (t1, st1)"
    and "targets messageId (t_phase t)"
    and "framed n messageId (messages_of (t_sessionId t) st)"
  shows "take n (messages_of (t_sessionId t) st1) = take n (messages_of (t_sessionId t) st)
       \<and> t_sessionId t1 = t_sessionId t \<and> targets messageId (t_phase t1)"
proof (cases ev)
  case (CompletionResolved response crd new_id now)
  with assms(1,2) obtain payload where ph: "t_phase t = AwaitCompletion messageId payload"
    by (cases "t_phase t") auto
  let ?st = "updateMessage (t_sessionId t) messageId (\<lambda>m. m\<lparr> m_content := [], m_status := Streaming \<rparr>) st"
  from assms(3) have f: "framed n messageId (messages_of (t_sessionId t) ?st)"
    by (simp add: framed_updated)
  from assms(1) CompletionResolved ph
  have "stream_continue t messageId (case r_choices response of [] \<Rightarrow> [] | ch # _ \<Rightarrow> ch_content ch)
          0 (abortController ?st) crd new_id now ?st = (t1, st1)"
    by (simp add: Let_def)
  from stream_continue_frame [OF this f] assms(3) show ?thesis
    by (simp add: framed_update)
next
  case (CompletionRejected e now)
  with assms(1,2) obtain payload where ph: "t_phase t = AwaitCompletion messageId payload"
    by (cases "t_phase t") auto
  with assms(1) CompletionRejected have "fail_task t messageId e now st = (t1, st1)" by simp
  from fail_task_frame [OF this assms(3)] show ?thesis .
next
  case (DelayElapsed mock_error new_id now)
  with assms(1,2) obtain content cursor chunk signal crd
    where ph: "t_phase t = AwaitDelay messageId content cursor chunk signal crd"
    by (cases "t_phase t") auto
  show ?thesis
  proof (cases mock_error)
    case True
    with assms(1) DelayElapsed ph have "fail_task t messageId Failure now st = (t1, st1)" by simp
    from fail_task_frame [OF this assms(3)] show ?thesis .
  next
    case False
    let ?st = "updateMessage (t_sessionId t) messageId (\<lambda>m. m\<lparr> m_content := m_content m @ chunk \<rparr>) st"
    from assms(3) have f: "framed n messageId (messages_of (t_sessionId t) ?st)"
      by (simp add: framed_updated)
    from assms(1) DelayElapsed ph False
    have "stream_continue t messageId content cursor signal crd new_id now ?st = (t1, st1)"
      by (simp add: Let_def)
    from stream_continue_frame [OF this f] assms(3) show ?thesis
      by (simp add: framed_update)
  qed
next
  case (SaveFileSettled ok new_id now)
  with assms(1,2) show ?thesis by (cases "t_phase t") auto
qed

lemma regenerate_start_Some:
  assumes "regenerate_start messageId now st0 = (Some t, st1)"
  shows "\<exists>index previousUser st2.
           findIndex (\<lambda>m. m_id m = messageId) (messages_of (the (activeSessionId st0)) st0) = Some index
         \<and> find (\<lambda>m. m_role m = User) (rev (take index (messages_of (the (activeSessionId st0)) st0)))
             = Some previousUser
         \<and> take index (messages_of (the (activeSessionId st0)) st2)
             = take index (messages_of (the (activeSessionId st0)) st0)
         \<and> st1 = new_controller (abort_current
                   (updateMessage (the (activeSessionId st0)) messageId (\<lambda>m. m\<lparr> m_content := [] \<rparr>)
                      (setMessageStatus (the (activeSessionId st0)) messageId Streaming st2)))
         \<and> t_sessionId t = the (activeSessionId st0)
         \<and> (\<exists>payload. t_phase t = AwaitCompletion messageId payload)"
proof -
  let ?sid = "the (activeSessionId st0)"
  let ?list = "messages_of ?sid st0"
  have act: "truthy (activeSessionId st0)"
  proof (rule ccontr)
    assume "\<not> truthy (activeSessionId st0)"
    with assms show False by (simp add: regenerate_start_def)
  qed
  obtain index where idx: "findIndex (\<lambda>m. m_id m = messageId) ?list = Some index"
  proof (cases "findIndex (\<lambda>m. m_id m = messageId) ?list")
    case None
    with assms act show ?thesis by (simp add: regenerate_start_def split_def Let_def)
  next
    case (Some i)
    then show ?thesis by (rule that)
  qed
  obtain previousUser
    where u: "find (\<lambda>m. m_role m = User) (rev (take index ?list)) = Some previousUser"
  proof (cases "find (\<lambda>m. m_role m = User) (rev (take index ?list))")
    case None
    with assms act idx show ?thesis by (simp add: regenerate_start_def split_def Let_def)
  next
    case (Some i)
    then show ?thesis by (rule that)
  qed
  from findIndex_takeWhile [OF idx] have lt: "index < length ?list" by simp
  let ?count = "count_cards (drop (index + 1) ?list)"
  let ?list1 = "take (index + 1) ?list @ drop (index + 1 + ?count) ?list"
  let ?st = "snd (getMessages ?sid st0)"
  let ?st2 = "if 0 < ?count
              then persist (replaceMessageIds ?sid (map m_id ?list1) now (set_messages ?sid ?list1 ?st))
              else ?st"
  have l1: "take index ?list1 = take index ?list" using lt by simp
  have m2: "take index (messages_of ?sid ?st2) = take index ?list"
    using l1 by simp
  from assms act idx u
  have st1: "st1 = new_controller (abort_current
                   (updateMessage ?sid messageId (\<lambda>m. m\<lparr> m_content := [] \<rparr>)
                      (setMessageStatus ?sid messageId Streaming ?st2)))"
    and t: "t_sessionId t = ?sid" "\<exists>payload. t_phase t = AwaitCompletion messageId payload"
    by (auto simp: regenerate_start_def split_def Let_def)
  from idx u m2 st1 t show ?thesis by blast
qed

lemma regenerate_start_frame:
  assumes "regenerate_start messageId now st0 = (Some t, st1)"
  shows "t_sessionId t = the (activeSessionId st0)
       \<and> targets messageId (t_phase t)
       \<and> frame_of messageId st0 st1 = before_target messageId st0
       \<and> (\<exists>previousUser. find (\<lambda>m. m_role m = User) (rev (before_target messageId st0))
                             = Some previousUser)"
proof -
  let ?sid = "the (activeSessionId st0)"
  let ?list = "messages_of ?sid st0"
  from regenerate_start_Some [OF assms] obtain index previousUser st2 where
    idx: "findIndex (\<lambda>m. m_id m = messageId) ?list = Some index"
    and u: "find (\<lambda>m. m_role m = User) (rev (take index ?list)) = Some previousUser"
    and m2: "take index (messages_of ?sid st2) = take index ?list"
    and st1: "st1 = new_controller (abort_current
                   (updateMessage ?sid messageId (\<lambda>m. m\<lparr> m_content := [] \<rparr>)
                      (setMessageStatus ?sid messageId Streaming st2)))"
    and t: "t_sessionId t = ?sid" "\<exists>payload. t_phase t = AwaitCompletion messageId payload"
    by blast
  from t(2) have tg: "targets messageId (t_phase t)" by auto
  from findIndex_takeWhile [OF idx]
  have n: "index = length (before_target messageId st0)"
    and tk: "take index ?list = before_target messageId st0"
    by (auto simp: before_target_def)
  have fr: "\<forall>m \<in> set (take index (messages_of ?sid st2)). \<not> m_id m = messageId"
    unfolding m2 tk before_target_def by (auto dest: set_takeWhileD)
  have "take index (messages_of ?sid st1) = take index (messages_of ?sid st2)"
    unfolding st1 using fr by (simp add: take_update_first)
  with m2 tk n have "frame_of messageId st0 st1 = before_target messageId st0"
    by (simp add: frame_of_def)
  with t(1) tg u tk show ?thesis by auto
qed

text \<open>
  Claim C8.  At every point of a regeneration, from its start to its end, whether its
  completion succeeds or fails, its stream fails, or another call cancels it, all the
  messages that stood before the target in the active session are the same in all
  fields as when it started.  The user message the regeneration located is the first
  user message found going backwards through exactly these messages, so it and
  every message before it are unchanged, its content included.
\<close>

theorem regenerate_frame:
  assumes "regen_reach messageId now st0 (t, st)"
  shows "frame_of messageId st0 st = before_target messageId st0
       \<and> (\<exists>previousUser \<in> set (before_target messageId st0).
             find (\<lambda>m. m_role m = User) (rev (before_target messageId st0)) = Some previousUser)"
proof -
  let ?sid = "the (activeSessionId st0)"
  let ?n = "length (before_target messageId st0)"
  have inv: "t_sessionId (fst r) = ?sid \<and> targets messageId (t_phase (fst r))
             \<and> frame_of messageId st0 (snd r) = before_target messageId st0
             \<and> (\<exists>previousUser. find (\<lambda>m. m_role m = User) (rev (before_target messageId st0))
                                   = Some previousUser)"
    if "regen_reach messageId now st0 r" for r
    using that
  proof (induction rule: regen_reach.induct)
    case (started t st1)
    from regenerate_start_frame [OF started] show ?case by simp
  next
    case (resumed t st ev t1 st1)
    then have sid: "t_sessionId t = ?sid" and tg: "targets messageId (t_phase t)"
      and fr: "take ?n (messages_of ?sid st) = before_target messageId st0"
      by (simp_all add: frame_of_def)
    from arg_cong [OF fr, of length] have "?n \<le> length (messages_of ?sid st)"
      by simp
    moreover have "\<forall>m \<in> set (before_target messageId st0). m_id m \<noteq> messageId"
      by (auto simp: before_target_def dest: set_takeWhileD)
    then have "\<forall>m \<in> set (take ?n (messages_of ?sid st)). m_id m \<noteq> messageId"
      using fr by simp
    ultimately have "framed ?n messageId (messages_of (t_sessionId t) st)"
      by (simp add: framed_def sid)
    from resume_frame [OF resumed(2) tg this] resumed.IH fr sid show ?case
      by (simp add: frame_of_def)
  next
    case (elsewhere t st st1)
    then show ?case by simp
  qed
  from inv [OF assms] obtain previousUser
    where f: "frame_of messageId st0 st = before_target messageId st0"
      and u: "find (\<lambda>m. m_role m = User) (rev (before_target messageId st0)) = Some previousUser"
    by auto
  from find_in_set [OF u] have "previousUser \<in> set (before_target messageId st0)"
    by simp
  with f u show ?thesis by blast
qed

lemma regen_started_eval:
  "regenerate_start ''a1'' 4 regen_state = (Some (fst regen_started), snd regen_started)"
proof -
  have "fst (regenerate_start ''a1'' 4 regen_state) \<noteq> None"
    by (simp add: regenerate_start_def regen_state_def initial_state_def truthy_def
        getMessages_def text_message_def card_message_def example_card_def split_def Let_def)
  then show ?thesis
    by (cases "regenerate_start ''a1'' 4 regen_state") (auto simp: regen_started_def)
qed

lemma regen_started_phase:
  "\<exists>payload. t_phase (fst regen_started) = AwaitCompletion ''a1'' payload"
  using regenerate_start_Some [OF regen_started_eval] by blast

lemma regen_ended_eval:
  "resume (CompletionResolved (response_with ''Hello again'') (Some example_card) ''k2'' 5)
     (fst regen_cancelled) (snd regen_cancelled) = Some (fst regen_ended, snd regen_ended)"
proof -
  from regen_started_phase obtain payload
    where "t_phase (fst regen_cancelled) = AwaitCompletion ''a1'' payload"
    by (auto simp: regen_cancelled_def)
  then have "resume (CompletionResolved (response_with ''Hello again'') (Some example_card) ''k2'' 5)
     (fst regen_cancelled) (snd regen_cancelled) \<noteq> None"
    by (simp add: Let_def)
  then show ?thesis by (auto simp: regen_ended_def)
qed

lemma regen_before_target:
  "before_target ''a1'' regen_state = [text_message ''u1'' ''s1'' User ''Hello'' 1 Sent]"
  by (simp add: before_target_def regen_state_def initial_state_def messages_of_def
      text_message_def card_message_def)

text \<open>
  A regeneration of the reply \<open>a1\<close> that another call cancels while it waits for its
  completion: the user message before \<open>a1\<close> is as it was.
\<close>

theorem regenerate_frame_witness:
  "regen_reach ''a1'' 4 regen_state regen_ended
   \<and> frame_of ''a1'' regen_state (snd regen_ended)
       = [text_message ''u1'' ''s1'' User ''Hello'' 1 Sent]
   \<and> find (\<lambda>m. m_role m = User) (rev (before_target ''a1'' regen_state))
       = Some (text_message ''u1'' ''s1'' User ''Hello'' 1 Sent)"
proof -
  have 1: "regen_reach ''a1'' 4 regen_state (fst regen_started, snd regen_started)"
    by (rule regen_reach.started) (rule regen_started_eval)
  have "frame_of ''a1'' regen_state (snd regen_cancelled) = frame_of ''a1'' regen_state (snd regen_started)"
    by (simp add: frame_of_def regen_cancelled_def)
  with 1 have "regen_reach ''a1'' 4 regen_state (fst regen_started, snd regen_cancelled)"
    by (rule regen_reach.elsewhere)
  then have 2: "regen_reach ''a1'' 4 regen_state (fst regen_cancelled, snd regen_cancelled)"
    by (simp add: regen_cancelled_def)
  from 2 regen_ended_eval
  have 3: "regen_reach ''a1'' 4 regen_state (fst regen_ended, snd regen_ended)"
    by (rule regen_reach.resumed)
  from regenerate_frame [OF 3]
  have f: "frame_of ''a1'' regen_state (snd regen_ended) = before_target ''a1'' regen_state"
    and u: "\<exists>previousUser \<in> set (before_target ''a1'' regen_state).
             find (\<lambda>m. m_role m = User) (rev (before_target ''a1'' regen_state)) = Some previousUser"
    by blast+
  from u have u1: "find (\<lambda>m. m_role m = User) (rev (before_target ''a1'' regen_state))
                     = Some (text_message ''u1'' ''s1'' User ''Hello'' 1 Sent)"
    unfolding regen_before_target by simp
  from 3 have r: "regen_reach ''a1'' 4 regen_state regen_ended" by simp
  from r f u1 show ?thesis unfolding regen_before_target by blast
qed

section \<open>A send that is delivered\<close>












end
